theory Spec2Isabelle
  imports Main "HOL-Library.Word" "HOL-Library.Sublist"
begin

section \<open>The error screen of the portal: strings and component state\<close>

text \<open>
  The component under study is the error boundary screen (\<^verbatim>\<open>export default function Error\<close>).
  Its handlers are closures over the \<^verbatim>\<open>error\<close> prop and four pieces of \<^verbatim>\<open>useState\<close> state;
  they are modelled as functions that take those values and the parts of the browser they touch,
  and return the new state together with the effects they request.

  A JavaScript string is a sequence of UTF-16 code units; \<^verbatim>\<open>length\<close>, \<^verbatim>\<open>substring\<close>,
  \<^verbatim>\<open>selectionStart\<close> and \<^verbatim>\<open>selectionEnd\<close> all count code units.
\<close>

type_synonym codeunit = "16 word"
type_synonym jsstring = "codeunit list"

text \<open>A string literal of the source, all of whose characters are ASCII.\<close>

definition js :: "string \<Rightarrow> jsstring" where
  "js s = map of_char s"

text \<open>\<^verbatim>\<open>error: Error & { digest?: string }\<close>; in the standard library \<^verbatim>\<open>Error\<close> has
  \<^verbatim>\<open>name: string\<close>, \<^verbatim>\<open>message: string\<close> and \<^verbatim>\<open>stack?: string\<close>. An absent optional field
  reads as \<^verbatim>\<open>undefined\<close>, here \<open>None\<close>.\<close>

record error_desc =
  name :: jsstring
  message :: jsstring
  stack :: "jsstring option"
  digest :: "jsstring option"

text \<open>The four \<^verbatim>\<open>useState\<close> cells; \<^verbatim>\<open>screenshot\<close> is \<^verbatim>\<open>string | null\<close>.\<close>

record state =
  showStackTrace :: bool
  copied :: bool
  screenshot :: "jsstring option"
  userReport :: jsstring

text \<open>The initial values given to \<^verbatim>\<open>useState\<close>.\<close>

definition initial_state :: state where
  "initial_state = \<lparr>showStackTrace = False, copied = False, screenshot = None, userReport = []\<rparr>"

subsection \<open>String primitives of the platform\<close>

text \<open>\<^verbatim>\<open>String.prototype.substring(start, end)\<close>: both arguments are clamped to the length of the
  string and swapped when \<^verbatim>\<open>start > end\<close>. The offsets read from a text area are never negative.\<close>

definition substring :: "jsstring \<Rightarrow> nat \<Rightarrow> nat \<Rightarrow> jsstring" where
  "substring s start fin =
     (let len = length s;
          finalStart = min start len;
          finalEnd = min fin len;
          lo = min finalStart finalEnd;
          hi = max finalStart finalEnd
      in take (hi - lo) (drop lo s))"

text \<open>\<^verbatim>\<open>substring(start)\<close>: an omitted end is the length of the string.\<close>

definition substring_from :: "jsstring \<Rightarrow> nat \<Rightarrow> jsstring" where
  "substring_from s start = substring s start (length s)"

text \<open>A value interpolated into a template literal: \<^verbatim>\<open>undefined\<close> prints as the word itself.\<close>

definition interp :: "jsstring option \<Rightarrow> jsstring" where
  "interp v = (case v of None \<Rightarrow> js ''undefined'' | Some s \<Rightarrow> s)"

text \<open>\<^verbatim>\<open>v || d\<close> on a value that is a string, \<^verbatim>\<open>undefined\<close> or \<^verbatim>\<open>null\<close>: the empty string is
  falsy as well.\<close>

definition or_default :: "jsstring option \<Rightarrow> jsstring \<Rightarrow> jsstring" where
  "or_default v d = (case v of None \<Rightarrow> d | Some s \<Rightarrow> if s = [] then d else s)"

definition truthy :: "jsstring option \<Rightarrow> bool" where
  "truthy v = (case v of None \<Rightarrow> False | Some s \<Rightarrow> s \<noteq> [])"

section \<open>The markdown toolbar: \<^verbatim>\<open>insertFormatting\<close>\<close>

text \<open>The text area found by \<^verbatim>\<open>document.getElementById('userReport')\<close>, as far as the handler
  reads it. It is a controlled input: its value is \<^verbatim>\<open>userReport\<close>.\<close>

record textarea =
  selectionStart :: nat
  selectionEnd :: nat

text \<open>The \<^verbatim>\<open>switch (format)\<close> over \<^verbatim>\<open>let formattedText = ''\<close>: there is no default branch, so
  any other format leaves the empty string.\<close>

definition formattedText :: "jsstring \<Rightarrow> jsstring \<Rightarrow> jsstring" where
  "formattedText format selectedText =
     (if format = js ''bold'' then js ''**'' @ selectedText @ js ''**''
      else if format = js ''italic'' then js ''*'' @ selectedText @ js ''*''
      else if format = js ''code'' then js ''`'' @ selectedText @ js ''`''
      else if format = js ''list'' then js ''- '' @ selectedText
      else [])"

text \<open>The handler returns at once when the element is missing. Otherwise it stores the new text
  with \<^verbatim>\<open>setUserReport\<close> and schedules \<^verbatim>\<open>setSelectionRange(p, p)\<close>; the second component of the
  result is that caret position \<open>p\<close>, \<open>None\<close> when nothing was scheduled.\<close>

definition insertFormatting :: "jsstring \<Rightarrow> textarea option \<Rightarrow> state \<Rightarrow> state \<times> nat option" where
  "insertFormatting format element st =
     (case element of
        None \<Rightarrow> (st, None)
      | Some ta \<Rightarrow>
          (let start = selectionStart ta;
               fin = selectionEnd ta;
               selectedText = substring (userReport st) start fin;
               formatted = formattedText format selectedText;
               newText = substring (userReport st) 0 start @ formatted
                           @ substring_from (userReport st) fin
           in (st\<lparr>userReport := newText\<rparr>, Some (start + length formatted))))"

section \<open>Platform functions the handlers call\<close>

text \<open>
  The handlers lean on functions of the JavaScript platform: \<^verbatim>\<open>encodeURIComponent\<close>,
  \<^verbatim>\<open>JSON.stringify\<close>, the object-URL store, the clipboard. They are modelled after the
  algorithms of the language standard (ECMA-262) and of the browser APIs, as far as the values the
  handlers pass can reach them. An exception thrown by the platform is a value of \<open>js_error\<close>.
\<close>

datatype js_error = URIError | SyntaxError | NotAllowedError

subsection \<open>UTF-16 and UTF-8\<close>

definition is_lead :: "codeunit \<Rightarrow> bool" where
  "is_lead c \<longleftrightarrow> 0xD800 \<le> c \<and> c \<le> 0xDBFF"

definition is_trail :: "codeunit \<Rightarrow> bool" where
  "is_trail c \<longleftrightarrow> 0xDC00 \<le> c \<and> c \<le> 0xDFFF"

text \<open>\<^verbatim>\<open>String.prototype.isWellFormed\<close>: no surrogate stands alone.\<close>

fun isWellFormed :: "jsstring \<Rightarrow> bool" where
  "isWellFormed [] = True"
| "isWellFormed (c # rest) =
     (if is_trail c then False
      else if is_lead c then
        (case rest of [] \<Rightarrow> False | d # rest' \<Rightarrow> is_trail d \<and> isWellFormed rest')
      else isWellFormed rest)"

definition surrogate_pair_to_code_point :: "codeunit \<Rightarrow> codeunit \<Rightarrow> nat" where
  "surrogate_pair_to_code_point lead trail =
     (unat lead - 0xD800) * 0x400 + (unat trail - 0xDC00) + 0x10000"

definition utf16_encode_code_point :: "nat \<Rightarrow> jsstring" where
  "utf16_encode_code_point cp =
     (if cp \<le> 0xFFFF then [of_nat cp]
      else [of_nat ((cp - 0x10000) div 0x400 + 0xD800), of_nat ((cp - 0x10000) mod 0x400 + 0xDC00)])"

text \<open>The octets of the UTF-8 encoding of a code point.\<close>

definition utf8_octets :: "nat \<Rightarrow> nat list" where
  "utf8_octets cp =
     (if cp < 0x80 then [cp]
      else if cp < 0x800 then [0xC0 + cp div 0x40, 0x80 + cp mod 0x40]
      else if cp < 0x10000 then
        [0xE0 + cp div 0x1000, 0x80 + cp div 0x40 mod 0x40, 0x80 + cp mod 0x40]
      else
        [0xF0 + cp div 0x40000, 0x80 + cp div 0x1000 mod 0x40, 0x80 + cp div 0x40 mod 0x40,
         0x80 + cp mod 0x40])"

definition is_continuation :: "nat \<Rightarrow> bool" where
  "is_continuation b \<longleftrightarrow> 0x80 \<le> b \<and> b < 0xC0"

text \<open>The code point of a list of octets that is a valid UTF-8 encoding of one code point:
  continuation octets are \<^verbatim>\<open>10xxxxxx\<close>, the encoding is the shortest one, and the code point is
  neither a surrogate nor beyond \<^verbatim>\<open>U+10FFFF\<close>. The single-octet case is decided by the caller.\<close>

fun utf8_code_point :: "nat list \<Rightarrow> nat option" where
  "utf8_code_point [b0, b1] =
     (let V = (b0 - 0xC0) * 0x40 + (b1 - 0x80)
      in if is_continuation b1 \<and> 0x80 \<le> V then Some V else None)"
| "utf8_code_point [b0, b1, b2] =
     (let V = (b0 - 0xE0) * 0x1000 + (b1 - 0x80) * 0x40 + (b2 - 0x80)
      in if is_continuation b1 \<and> is_continuation b2 \<and> 0x800 \<le> V
            \<and> \<not> (0xD800 \<le> V \<and> V \<le> 0xDFFF)
         then Some V else None)"
| "utf8_code_point [b0, b1, b2, b3] =
     (let V = (b0 - 0xF0) * 0x40000 + (b1 - 0x80) * 0x1000 + (b2 - 0x80) * 0x40 + (b3 - 0x80)
      in if is_continuation b1 \<and> is_continuation b2 \<and> is_continuation b3
            \<and> 0x10000 \<le> V \<and> V \<le> 0x10FFFF
         then Some V else None)"
| "utf8_code_point _ = None"

subsection \<open>\<^verbatim>\<open>encodeURIComponent\<close> and \<^verbatim>\<open>decodeURIComponent\<close>\<close>

definition hex_upper :: "nat \<Rightarrow> codeunit" where
  "hex_upper d = (if d < 10 then of_nat (0x30 + d) else of_nat (0x41 + (d - 10)))"

text \<open>An octet as \<^verbatim>\<open>%XX\<close>, in upper-case hexadecimal.\<close>

definition percent_escape :: "nat \<Rightarrow> jsstring" where
  "percent_escape octet = [0x25, hex_upper (octet div 16), hex_upper (octet mod 16)]"

text \<open>The code units \<^verbatim>\<open>encodeURIComponent\<close> copies: ASCII letters and digits and
  \<^verbatim>\<open>- _ . ! ~ * ' ( )\<close>.\<close>

definition uriUnescaped :: "codeunit \<Rightarrow> bool" where
  "uriUnescaped c \<longleftrightarrow>
     (0x41 \<le> c \<and> c \<le> 0x5A) \<or> (0x61 \<le> c \<and> c \<le> 0x7A) \<or> (0x30 \<le> c \<and> c \<le> 0x39)
     \<or> c \<in> set (js ''-_.!~*()'') \<or> c = 0x27"

text \<open>Appending \<open>S\<close> to the result \<open>R\<close> of the rest of a loop that may have thrown.\<close>

definition emit :: "jsstring \<Rightarrow> js_error + jsstring \<Rightarrow> js_error + jsstring" where
  "emit S R = (case R of Inl e \<Rightarrow> Inl e | Inr t \<Rightarrow> Inr (S @ t))"

text \<open>The abstract operation \<^verbatim>\<open>Encode\<close> with the unescaped set of \<^verbatim>\<open>encodeURIComponent\<close>:
  an unescaped code unit is copied; otherwise the code point at the position is read (two code
  units for a surrogate pair), a lone surrogate throws a \<^verbatim>\<open>URIError\<close>, and the UTF-8 octets of
  the code point are written as \<^verbatim>\<open>%XX\<close>.\<close>

fun encodeURIComponent :: "jsstring \<Rightarrow> js_error + jsstring" where
  "encodeURIComponent [] = Inr []"
| "encodeURIComponent (c # rest) =
     (if uriUnescaped c then emit [c] (encodeURIComponent rest)
      else if is_trail c then Inl URIError
      else if is_lead c then
        (case rest of
           [] \<Rightarrow> Inl URIError
         | d # rest' \<Rightarrow>
             if is_trail d
             then emit (concat (map percent_escape (utf8_octets (surrogate_pair_to_code_point c d))))
                    (encodeURIComponent rest')
             else Inl URIError)
      else emit (concat (map percent_escape (utf8_octets (unat c)))) (encodeURIComponent rest))"

definition hex_value :: "codeunit \<Rightarrow> nat option" where
  "hex_value c =
     (if 0x30 \<le> c \<and> c \<le> 0x39 then Some (unat c - 0x30)
      else if 0x41 \<le> c \<and> c \<le> 0x46 then Some (unat c - 0x41 + 10)
      else if 0x61 \<le> c \<and> c \<le> 0x66 then Some (unat c - 0x61 + 10)
      else None)"

text \<open>\<^verbatim>\<open>ParseHexOctet\<close>: two hexadecimal digits at the front of \<open>s\<close>, and what follows them.\<close>

definition parse_hex_octet :: "jsstring \<Rightarrow> (nat \<times> jsstring) option" where
  "parse_hex_octet s =
     (case s of
        h1 # h2 # r \<Rightarrow>
          (case hex_value h1 of
             None \<Rightarrow> None
           | Some a \<Rightarrow> (case hex_value h2 of None \<Rightarrow> None | Some b \<Rightarrow> Some (16 * a + b, r)))
      | _ \<Rightarrow> None)"

text \<open>The inner loop of \<^verbatim>\<open>Decode\<close>: \<open>j\<close> more escaped octets.\<close>

fun continuation_octets :: "nat \<Rightarrow> jsstring \<Rightarrow> (nat list \<times> jsstring) option" where
  "continuation_octets 0 s = Some ([], s)"
| "continuation_octets (Suc j) s =
     (case s of
        [] \<Rightarrow> None
      | p # r \<Rightarrow>
          if p \<noteq> 0x25 then None
          else (case parse_hex_octet r of
                  None \<Rightarrow> None
                | Some (b, r') \<Rightarrow>
                    (case continuation_octets j r' of
                       None \<Rightarrow> None
                     | Some (bs, r'') \<Rightarrow> Some (b # bs, r''))))"

text \<open>The number of leading 1 bits of an octet, up to 5.\<close>

definition leading_ones :: "nat \<Rightarrow> nat" where
  "leading_ones B =
     (if B < 0x80 then 0 else if B < 0xC0 then 1 else if B < 0xE0 then 2
      else if B < 0xF0 then 3 else if B < 0xF8 then 4 else 5)"

lemma parse_hex_octet_shorter:
  "parse_hex_octet s = Some (b, r) \<Longrightarrow> length s = length r + 2"
  by (auto simp: parse_hex_octet_def split: list.splits option.splits)

lemma continuation_octets_shorter:
  "continuation_octets j s = Some (bs, r) \<Longrightarrow> length r \<le> length s"
  by (induction j arbitrary: s bs)
     (auto split: list.splits option.splits if_splits dest!: parse_hex_octet_shorter, fastforce)

text \<open>The abstract operation \<^verbatim>\<open>Decode\<close> with no preserved escapes, as \<^verbatim>\<open>decodeURIComponent\<close>
  calls it.\<close>

function decodeURIComponent :: "jsstring \<Rightarrow> js_error + jsstring" where
  "decodeURIComponent [] = Inr []"
| "decodeURIComponent (c # rest) =
     (if c \<noteq> 0x25 then emit [c] (decodeURIComponent rest)
      else
        (case parse_hex_octet rest of
           None \<Rightarrow> Inl URIError
         | Some (B, r) \<Rightarrow>
             (let n = leading_ones B in
              if n = 0 then emit [of_nat B] (decodeURIComponent r)
              else if n = 1 \<or> n > 4 then Inl URIError
              else
                (case continuation_octets (n - 1) r of
                   None \<Rightarrow> Inl URIError
                 | Some (bs, r') \<Rightarrow>
                     (case utf8_code_point (B # bs) of
                        None \<Rightarrow> Inl URIError
                      | Some V \<Rightarrow> emit (utf16_encode_code_point V) (decodeURIComponent r'))))))"
  by pat_completeness auto
termination
  by (relation "measure length")
     (auto dest!: parse_hex_octet_shorter continuation_octets_shorter)

text \<open>The code units that can stand in the result of \<^verbatim>\<open>encodeURIComponent\<close>: the unescaped
  ones and the percent sign.\<close>

definition uri_safe :: "codeunit \<Rightarrow> bool" where
  "uri_safe c \<longleftrightarrow> uriUnescaped c \<or> c = 0x25"

subsection \<open>Reading a query parameter off a URL\<close>

text \<open>How the reader of a URL finds a parameter: the query is what stands between the first
  \<^verbatim>\<open>?\<close> and the fragment; it is split at every \<^verbatim>\<open>&\<close>, and each piece at its first
  \<^verbatim>\<open>=\<close>. The value is returned as it stands in the URL, still escaped.\<close>

fun split_on :: "codeunit \<Rightarrow> jsstring \<Rightarrow> jsstring list" where
  "split_on sep [] = [[]]"
| "split_on sep (c # s) =
     (if c = sep then [] # split_on sep s
      else (case split_on sep s of [] \<Rightarrow> [[c]] | p # ps \<Rightarrow> (c # p) # ps))"

definition url_query :: "jsstring \<Rightarrow> jsstring" where
  "url_query url = takeWhile (\<lambda>c. c \<noteq> 0x23) (drop 1 (dropWhile (\<lambda>c. c \<noteq> 0x3F) url))"

definition query_params :: "jsstring \<Rightarrow> (jsstring \<times> jsstring) list" where
  "query_params url =
     map (\<lambda>p. (takeWhile (\<lambda>c. c \<noteq> 0x3D) p, drop 1 (dropWhile (\<lambda>c. c \<noteq> 0x3D) p)))
       (split_on 0x26 (url_query url))"

definition query_param :: "jsstring \<Rightarrow> jsstring \<Rightarrow> jsstring option" where
  "query_param url key = map_of (query_params url) key"

subsection \<open>\<^verbatim>\<open>JSON.stringify\<close> and \<^verbatim>\<open>JSON.parse\<close>\<close>

text \<open>The values the handlers build and serialise: strings, \<^verbatim>\<open>undefined\<close>, and object
  literals with their properties in the order they were written.\<close>

datatype jsval = Undefined | Str jsstring | Obj "(jsstring \<times> jsval) list"

text \<open>Reading a property: \<^verbatim>\<open>undefined\<close> when the object has no such property.\<close>

fun get_prop :: "jsval \<Rightarrow> jsstring \<Rightarrow> jsval" where
  "get_prop (Obj ps) k = (case map_of ps k of None \<Rightarrow> Undefined | Some v \<Rightarrow> v)"
| "get_prop _ k = Undefined"

definition hex_lower :: "nat \<Rightarrow> codeunit" where
  "hex_lower d = (if d < 10 then of_nat (0x30 + d) else of_nat (0x61 + (d - 10)))"

text \<open>\<^verbatim>\<open>UnicodeEscape\<close>: \<^verbatim>\<open>\uXXXX\<close> with four lower-case hexadecimal digits.\<close>

definition unicode_escape :: "codeunit \<Rightarrow> jsstring" where
  "unicode_escape c =
     (let n = unat c
      in [0x5C, 0x75, hex_lower (n div 0x1000), hex_lower (n div 0x100 mod 0x10),
          hex_lower (n div 0x10 mod 0x10), hex_lower (n mod 0x10)])"

text \<open>The table of two-character escapes of \<^verbatim>\<open>QuoteJSONString\<close>: backspace, tab, line feed,
  form feed, carriage return, the double quote and the backslash.\<close>

definition json_escape :: "codeunit \<Rightarrow> jsstring option" where
  "json_escape c =
     (if c = 0x08 then Some [0x5C, 0x62]
      else if c = 0x09 then Some [0x5C, 0x74]
      else if c = 0x0A then Some [0x5C, 0x6E]
      else if c = 0x0C then Some [0x5C, 0x66]
      else if c = 0x0D then Some [0x5C, 0x72]
      else if c = 0x22 then Some [0x5C, 0x22]
      else if c = 0x5C then Some [0x5C, 0x5C]
      else None)"

text \<open>The loop of \<^verbatim>\<open>QuoteJSONString\<close> over the code points of the string: a code point of the
  table is escaped; a control character below the space and a lone surrogate become
  \<^verbatim>\<open>\uXXXX\<close>; anything else, a surrogate pair included, is copied.\<close>

fun quote_chars :: "jsstring \<Rightarrow> jsstring" where
  "quote_chars [] = []"
| "quote_chars (c # rest) =
     (case json_escape c of
        Some e \<Rightarrow> e @ quote_chars rest
      | None \<Rightarrow>
          if c < 0x20 then unicode_escape c @ quote_chars rest
          else if is_lead c then
            (case rest of
               [] \<Rightarrow> unicode_escape c
             | d # rest' \<Rightarrow>
                 if is_trail d then c # d # quote_chars rest'
                 else unicode_escape c @ quote_chars rest)
          else if is_trail c then unicode_escape c @ quote_chars rest
          else c # quote_chars rest)"

definition QuoteJSONString :: "jsstring \<Rightarrow> jsstring" where
  "QuoteJSONString s = 0x22 # quote_chars s @ [0x22]"

text \<open>\<^verbatim>\<open>JSON.stringify(value, null, 2)\<close>: the gap is two spaces.\<close>

definition gap :: jsstring where
  "gap = [0x20, 0x20]"

fun join :: "jsstring \<Rightarrow> jsstring list \<Rightarrow> jsstring" where
  "join sep [] = []"
| "join sep [x] = x"
| "join sep (x # y # ys) = x @ sep @ join sep (y # ys)"

text \<open>\<^verbatim>\<open>SerializeJSONProperty\<close> and \<^verbatim>\<open>SerializeJSONObject\<close> at the indentation \<open>indent\<close>:
  \<open>None\<close> is the result \<^verbatim>\<open>undefined\<close>, and a property whose value serialises to
  \<^verbatim>\<open>undefined\<close> is left out of its object. The punctuation is written by its code units:
  \<open>0x7B\<close> and \<open>0x7D\<close> are the braces, \<open>0x2C\<close> the comma, \<open>0x3A\<close> the colon, \<open>0x22\<close> the double
  quote, \<open>0x5C\<close> the backslash, \<open>0x20\<close> the space and \<open>0x0A\<close> the line feed.\<close>

fun SerializeJSONProperty :: "jsstring \<Rightarrow> jsval \<Rightarrow> jsstring option"
  and SerializeJSONMembers :: "jsstring \<Rightarrow> (jsstring \<times> jsval) list \<Rightarrow> jsstring list" where
  "SerializeJSONProperty indent Undefined = None"
| "SerializeJSONProperty indent (Str s) = Some (QuoteJSONString s)"
| "SerializeJSONProperty indent (Obj ps) =
     (let stepback = indent;
          indent' = indent @ gap;
          partial = SerializeJSONMembers indent' ps
      in if partial = [] then Some [0x7B, 0x7D]
         else Some ([0x7B, 0x0A] @ indent' @ join ([0x2C, 0x0A] @ indent') partial
                      @ [0x0A] @ stepback @ [0x7D]))"
| "SerializeJSONMembers indent [] = []"
| "SerializeJSONMembers indent ((P, v) # ps) =
     (case SerializeJSONProperty indent v of
        None \<Rightarrow> SerializeJSONMembers indent ps
      | Some strP \<Rightarrow> (QuoteJSONString P @ [0x3A, 0x20] @ strP) # SerializeJSONMembers indent ps)"

definition JSON_stringify :: "jsval \<Rightarrow> jsstring option" where
  "JSON_stringify v = SerializeJSONProperty [] v"

text \<open>
  \<^verbatim>\<open>JSON.parse\<close>, on the part of the JSON grammar whose values are string literals and objects,
  which is all that \<^verbatim>\<open>JSON.stringify\<close> writes for the values above. A text outside that part
  (a number, an array, \<^verbatim>\<open>true\<close>, \<^verbatim>\<open>false\<close>, \<^verbatim>\<open>null\<close>) is not read by this model, which
  answers \<open>SyntaxError\<close> for it as for a malformed text.
\<close>

definition is_ws :: "codeunit \<Rightarrow> bool" where
  "is_ws c \<longleftrightarrow> c = 0x20 \<or> c = 0x09 \<or> c = 0x0A \<or> c = 0x0D"

definition skip_ws :: "jsstring \<Rightarrow> jsstring" where
  "skip_ws s = dropWhile is_ws s"

definition json_unescape :: "codeunit \<Rightarrow> codeunit option" where
  "json_unescape e =
     (if e = 0x22 then Some 0x22
      else if e = 0x5C then Some 0x5C
      else if e = 0x2F then Some 0x2F
      else if e = 0x62 then Some 0x08
      else if e = 0x66 then Some 0x0C
      else if e = 0x6E then Some 0x0A
      else if e = 0x72 then Some 0x0D
      else if e = 0x74 then Some 0x09
      else None)"

definition hex4 :: "codeunit \<Rightarrow> codeunit \<Rightarrow> codeunit \<Rightarrow> codeunit \<Rightarrow> codeunit option" where
  "hex4 h1 h2 h3 h4 =
     (case (hex_value h1, hex_value h2, hex_value h3, hex_value h4) of
        (Some a, Some b, Some c, Some d) \<Rightarrow> Some (of_nat (0x1000 * a + 0x100 * b + 0x10 * c + d))
      | _ \<Rightarrow> None)"

definition cons_char :: "codeunit \<Rightarrow> (jsstring \<times> jsstring) option \<Rightarrow> (jsstring \<times> jsstring) option" where
  "cons_char c R = (case R of None \<Rightarrow> None | Some (x, r) \<Rightarrow> Some (c # x, r))"

text \<open>The characters of a string literal after its opening quote, up to the closing quote: the
  value of the literal and the text after it.\<close>

fun parse_chars :: "jsstring \<Rightarrow> (jsstring \<times> jsstring) option" where
  "parse_chars [] = None"
| "parse_chars (c # r) =
     (if c = 0x22 then Some ([], r)
      else if c = 0x5C then
        (case r of
           [] \<Rightarrow> None
         | e # r' \<Rightarrow>
             if e = 0x75 then
               (case r' of
                  h1 # h2 # h3 # h4 # r'' \<Rightarrow>
                    (case hex4 h1 h2 h3 h4 of
                       None \<Rightarrow> None
                     | Some u \<Rightarrow> cons_char u (parse_chars r''))
                | _ \<Rightarrow> None)
             else
               (case json_unescape e of
                  None \<Rightarrow> None
                | Some u \<Rightarrow> cons_char u (parse_chars r')))
      else if c < 0x20 then None
      else cons_char c (parse_chars r))"

text \<open>Defining a property while an object is read: a repeated key overwrites the value in
  place.\<close>

fun define_prop :: "(jsstring \<times> jsval) list \<Rightarrow> jsstring \<Rightarrow> jsval \<Rightarrow> (jsstring \<times> jsval) list" where
  "define_prop [] k v = [(k, v)]"
| "define_prop ((k', v') # ps) k v =
     (if k' = k then (k, v) # ps else (k', v') # define_prop ps k v)"

text \<open>A string literal after optional white space, and a member's key with its colon.\<close>

definition parse_string :: "jsstring \<Rightarrow> (jsstring \<times> jsstring) option" where
  "parse_string s =
     (case skip_ws s of [] \<Rightarrow> None | c # r \<Rightarrow> if c = 0x22 then parse_chars r else None)"

definition parse_key :: "jsstring \<Rightarrow> (jsstring \<times> jsstring) option" where
  "parse_key s =
     (case parse_string s of
        None \<Rightarrow> None
      | Some (k, r1) \<Rightarrow>
          (case skip_ws r1 of [] \<Rightarrow> None | c1 # r2 \<Rightarrow> if c1 = 0x3A then Some (k, r2) else None))"

text \<open>A value, and the members of an object after its opening brace. The first argument bounds
  the number of nested calls; \<open>JSON_parse\<close> starts it at the length of the text, and every call
  reads at least one character before the next.\<close>

fun parse_value :: "nat \<Rightarrow> jsstring \<Rightarrow> (jsval \<times> jsstring) option"
  and parse_members :: "nat \<Rightarrow> (jsstring \<times> jsval) list \<Rightarrow> jsstring \<Rightarrow> (jsval \<times> jsstring) option" where
  "parse_value 0 s = None"
| "parse_value (Suc n) s =
     (case skip_ws s of
        [] \<Rightarrow> None
      | c # r \<Rightarrow>
          if c = 0x22 then
            (case parse_chars r of None \<Rightarrow> None | Some (x, r') \<Rightarrow> Some (Str x, r'))
          else if c = 0x7B then
            (case skip_ws r of
               [] \<Rightarrow> None
             | d # r' \<Rightarrow> if d = 0x7D then Some (Obj [], r') else parse_members n [] (d # r'))
          else None)"
| "parse_members 0 acc s = None"
| "parse_members (Suc n) acc s =
     (case parse_key s of
        None \<Rightarrow> None
      | Some (k, r2) \<Rightarrow>
          (case parse_value n r2 of
             None \<Rightarrow> None
           | Some (v, r3) \<Rightarrow>
               (case skip_ws r3 of
                  [] \<Rightarrow> None
                | c3 # r4 \<Rightarrow>
                    if c3 = 0x2C then parse_members n (define_prop acc k v) r4
                    else if c3 = 0x7D then Some (Obj (define_prop acc k v), r4)
                    else None)))"

definition JSON_parse :: "jsstring \<Rightarrow> js_error + jsval" where
  "JSON_parse text =
     (case parse_value (length text) text of
        None \<Rightarrow> Inl SyntaxError
      | Some (v, r) \<Rightarrow> if skip_ws r = [] then Inr v else Inl SyntaxError)"

subsection \<open>The clock, the navigator and the window\<close>

text \<open>What the handlers read from the browser: \<^verbatim>\<open>new Date().toISOString()\<close>, \<^verbatim>\<open>Date.now()\<close>,
  \<^verbatim>\<open>navigator.userAgent\<close> and \<^verbatim>\<open>window.location.href\<close>.\<close>

record env =
  now_iso :: jsstring
  now_ms :: nat
  userAgent :: jsstring
  href :: jsstring

text \<open>A non-negative integer in a template literal: its decimal digits.\<close>

function digits :: "nat \<Rightarrow> jsstring" where
  "digits n =
     (if n < 10 then [of_nat (0x30 + n)]
      else digits (n div 10) @ [of_nat (0x30 + n mod 10)])"
  by pat_completeness auto
termination
  by (relation "measure id") auto

declare digits.simps [simp del]

definition number_to_string :: "nat \<Rightarrow> jsstring" where
  "number_to_string n = digits n"

text \<open>A \<^verbatim>\<open>Blob\<close> made of one string part, with its MIME type.\<close>

record blob =
  blobParts :: jsstring
  mime :: jsstring

text \<open>The parts of the browser the handlers change: the store of object URLs that have been
  created and not revoked (a URL is a handle, the count of the URLs issued so far), the files
  handed to the user, the browsing contexts opened, and the clipboard with its permission.\<close>

record browser =
  issued :: nat
  objectURLs :: "(nat \<times> blob) list"
  downloads :: "(jsstring \<times> blob) list"
  opened :: "(jsstring \<times> jsstring) list"
  clipboardGranted :: bool
  clipboardText :: "jsstring option"

definition createObjectURL :: "blob \<Rightarrow> browser \<Rightarrow> nat \<times> browser" where
  "createObjectURL b br =
     (issued br, br\<lparr>issued := Suc (issued br), objectURLs := (issued br, b) # objectURLs br\<rparr>)"

definition revokeObjectURL :: "nat \<Rightarrow> browser \<Rightarrow> browser" where
  "revokeObjectURL url br = br\<lparr>objectURLs := filter (\<lambda>(u, b). u \<noteq> url) (objectURLs br)\<rparr>"

text \<open>\<^verbatim>\<open>a.click()\<close> on an anchor with \<^verbatim>\<open>href\<close> and \<^verbatim>\<open>download\<close> set: the blob behind a live
  object URL is saved under the given name.\<close>

definition anchor_click :: "nat \<Rightarrow> jsstring \<Rightarrow> browser \<Rightarrow> browser" where
  "anchor_click url filename br =
     (case map_of (objectURLs br) url of
        None \<Rightarrow> br
      | Some b \<Rightarrow> br\<lparr>downloads := downloads br @ [(filename, b)]\<rparr>)"

definition window_open :: "jsstring \<Rightarrow> jsstring \<Rightarrow> browser \<Rightarrow> browser" where
  "window_open url target br = br\<lparr>opened := opened br @ [(url, target)]\<rparr>"

text \<open>The outcome of an awaited promise, and of an \<^verbatim>\<open>async\<close> function.\<close>

datatype 'a promise = Fulfilled 'a | Rejected js_error

text \<open>\<^verbatim>\<open>navigator.clipboard.writeText\<close>: rejects with \<^verbatim>\<open>NotAllowedError\<close> when the permission
  is not granted.\<close>

definition writeText :: "jsstring \<Rightarrow> browser \<Rightarrow> unit promise \<times> browser" where
  "writeText text br =
     (if clipboardGranted br then (Fulfilled (), br\<lparr>clipboardText := Some text\<rparr>)
      else (Rejected NotAllowedError, br))"

section \<open>The report handlers\<close>

subsection \<open>\<^verbatim>\<open>downloadErrorReport\<close>\<close>

text \<open>The object literal \<^verbatim>\<open>report\<close>. The digest and the stack are copied as they are, absent or
  not; only the screenshot has a default.\<close>

definition report :: "env \<Rightarrow> error_desc \<Rightarrow> state \<Rightarrow> jsval" where
  "report e error st =
     Obj [(js ''timestamp'', Str (now_iso e)),
          (js ''error'',
             Obj [(js ''name'', Str (name error)),
                  (js ''message'', Str (message error)),
                  (js ''stack'', (case stack error of None \<Rightarrow> Undefined | Some s \<Rightarrow> Str s)),
                  (js ''digest'', (case digest error of None \<Rightarrow> Undefined | Some s \<Rightarrow> Str s))]),
          (js ''userReport'', Str (userReport st)),
          (js ''userAgent'', Str (userAgent e)),
          (js ''url'', Str (href e)),
          (js ''screenshot'', Str (or_default (screenshot st) (js ''No screenshot captured'')))]"

text \<open>The text given to the \<^verbatim>\<open>Blob\<close> constructor.\<close>

definition report_json :: "env \<Rightarrow> error_desc \<Rightarrow> state \<Rightarrow> jsstring" where
  "report_json e error st = interp (JSON_stringify (report e error st))"

definition downloadErrorReport :: "env \<Rightarrow> error_desc \<Rightarrow> state \<Rightarrow> browser \<Rightarrow> browser" where
  "downloadErrorReport e error st br =
     (let b = \<lparr>blobParts = report_json e error st, mime = js ''application/json''\<rparr>;
          (url, br1) = createObjectURL b br;
          br2 = anchor_click url
                  (js ''error-report-'' @ number_to_string (now_ms e) @ js ''.json'') br1
      in revokeObjectURL url br2)"

subsection \<open>\<^verbatim>\<open>createGithubIssue\<close>\<close>

text \<open>The two template literals, before they are escaped.\<close>

definition issue_title :: "error_desc \<Rightarrow> jsstring" where
  "issue_title error = js ''Error: '' @ message error"

definition issue_body :: "env \<Rightarrow> error_desc \<Rightarrow> state \<Rightarrow> jsstring" where
  "issue_body e error st =
     js ''## Error Report\<newline>\<newline>**Error Message:** '' @ message error
     @ js ''\<newline>\<newline>**Error Type:** '' @ name error
     @ js ''\<newline>\<newline>**Digest:** '' @ or_default (digest error) (js ''N/A'')
     @ js ''\<newline>\<newline>**User Report:**\<newline>''
     @ or_default (Some (userReport st)) (js ''No additional information provided'')
     @ js ''\<newline>\<newline>**Stack Trace:**\<newline>```\<newline>'' @ interp (stack error)
     @ js ''\<newline>```\<newline>\<newline>**Environment:**\<newline>- URL: '' @ href e
     @ js ''\<newline>- User Agent: '' @ userAgent e
     @ js ''\<newline>- Timestamp: '' @ now_iso e
     @ js ''\<newline>\<newline>''
     @ (if truthy (screenshot st) then js ''**Screenshot:** Attached separately''
        else js ''**Screenshot:** Not captured'')"

text \<open>The URL template, given the two escaped parts.\<close>

definition issue_url :: "jsstring \<Rightarrow> jsstring \<Rightarrow> jsstring" where
  "issue_url title body =
     js ''https://github.com/vsthakur101/portal/issues/new?title='' @ title @ js ''&body='' @ body"

text \<open>The constant \<^verbatim>\<open>githubUrl\<close>, or what \<^verbatim>\<open>encodeURIComponent\<close> threw on the way to it: the
  title is escaped first, then the body.\<close>

definition githubUrl :: "env \<Rightarrow> error_desc \<Rightarrow> state \<Rightarrow> js_error + jsstring" where
  "githubUrl e error st =
     (case encodeURIComponent (issue_title error) of
        Inl x \<Rightarrow> Inl x
      | Inr title \<Rightarrow>
          (case encodeURIComponent (issue_body e error st) of
             Inl x \<Rightarrow> Inl x
           | Inr body \<Rightarrow> Inr (issue_url title body)))"

text \<open>The handler has no \<^verbatim>\<open>try\<close>: it throws what \<^verbatim>\<open>encodeURIComponent\<close> throws; otherwise it
  opens the URL in a new browsing context.\<close>

definition createGithubIssue :: "env \<Rightarrow> error_desc \<Rightarrow> state \<Rightarrow> browser \<Rightarrow> js_error + browser" where
  "createGithubIssue e error st br =
     (case githubUrl e error st of
        Inl x \<Rightarrow> Inl x
      | Inr url \<Rightarrow> Inr (window_open url (js ''_blank'') br))"

text \<open>A parameter of that URL as its reader sees it: found in the query and unescaped; \<open>None\<close>
  when there is no URL, no such parameter, or no decoding of it.\<close>

definition url_param_decoded :: "js_error + jsstring \<Rightarrow> jsstring \<Rightarrow> jsstring option" where
  "url_param_decoded u key =
     (case u of
        Inl x \<Rightarrow> None
      | Inr url \<Rightarrow>
          (case query_param url key of
             None \<Rightarrow> None
           | Some raw \<Rightarrow> (case decodeURIComponent raw of Inl x \<Rightarrow> None | Inr v \<Rightarrow> Some v)))"

text \<open>Every text that goes into the issue is well-formed UTF-16.\<close>

definition text_wellformed :: "env \<Rightarrow> error_desc \<Rightarrow> state \<Rightarrow> bool" where
  "text_wellformed e error st \<longleftrightarrow>
     isWellFormed (message error) \<and> isWellFormed (name error)
     \<and> (case stack error of None \<Rightarrow> True | Some s \<Rightarrow> isWellFormed s)
     \<and> (case digest error of None \<Rightarrow> True | Some s \<Rightarrow> isWellFormed s)
     \<and> isWellFormed (userReport st)
     \<and> isWellFormed (href e) \<and> isWellFormed (userAgent e) \<and> isWellFormed (now_iso e)"

subsection \<open>\<^verbatim>\<open>copyToClipboard\<close>\<close>

definition clipboard_text :: "error_desc \<Rightarrow> jsstring" where
  "clipboard_text error =
     js ''Error: '' @ message error @ js ''\<newline>\<newline>Stack Trace:\<newline>'' @ interp (stack error)"

text \<open>An \<^verbatim>\<open>async\<close> function with no \<^verbatim>\<open>try\<close>: when the awaited write rejects, the function's
  own promise rejects with the same error and the statements after the \<^verbatim>\<open>await\<close> do not run.
  The result is that promise, the new state, the new browser and the timers started (a delay in
  milliseconds and the state update to run).\<close>

definition copyToClipboard ::
  "error_desc \<Rightarrow> state \<Rightarrow> browser \<Rightarrow> unit promise \<times> state \<times> browser \<times> (nat \<times> (state \<Rightarrow> state)) list" where
  "copyToClipboard error st br =
     (case writeText (clipboard_text error) br of
        (Rejected x, br') \<Rightarrow> (Rejected x, st, br', [])
      | (Fulfilled u, br') \<Rightarrow>
          (Fulfilled (), st\<lparr>copied := True\<rparr>, br', [(2000, \<lambda>s. s\<lparr>copied := False\<rparr>)]))"

section \<open>Sample inputs\<close>

definition sample_env :: env where
  "sample_env =
     \<lparr>now_iso = js ''2024-05-06T07:08:09.010Z'', now_ms = 1714979289010,
      userAgent = js ''Mozilla/5.0'', href = js ''https://portal.example/tools?id=7''\<rparr>"

definition sample_error :: error_desc where
  "sample_error =
     \<lparr>name = js ''TypeError'', message = js ''boom'',
      stack = Some (js ''TypeError: boom\<newline>    at render (page.tsx:3:9)''), digest = None\<rparr>"

definition sample_browser :: browser where
  "sample_browser =
     \<lparr>issued = 0, objectURLs = [], downloads = [], opened = [], clipboardGranted = True,
      clipboardText = None\<rparr>"

section \<open>Properties of the markdown toolbar\<close>

lemma substring_in_range:
  "s \<le> e \<Longrightarrow> e \<le> length buf \<Longrightarrow> substring buf s e = take (e - s) (drop s buf)"
  by (simp add: substring_def Let_def min_def max_def)

lemma substring_prefix: "s \<le> length buf \<Longrightarrow> substring buf 0 s = take s buf"
  by (simp add: substring_def Let_def min_def max_def)

lemma substring_from_suffix: "e \<le> length buf \<Longrightarrow> substring_from buf e = drop e buf"
  by (simp add: substring_from_def substring_def Let_def min_def max_def)

lemma insertFormatting_in_range:
  assumes "selectionStart ta \<le> selectionEnd ta" and "selectionEnd ta \<le> length (userReport st)"
  shows "insertFormatting format (Some ta) st =
           (st\<lparr>userReport := take (selectionStart ta) (userReport st)
                  @ formattedText format
                      (take (selectionEnd ta - selectionStart ta) (drop (selectionStart ta) (userReport st)))
                  @ drop (selectionEnd ta) (userReport st)\<rparr>,
            Some (selectionStart ta + length (formattedText format
                      (take (selectionEnd ta - selectionStart ta) (drop (selectionStart ta) (userReport st))))))"
  using assms
  by (simp add: insertFormatting_def Let_def substring_in_range substring_prefix substring_from_suffix)

lemmas toolbar_eval =
  insertFormatting_def substring_def substring_from_def formattedText_def js_def Let_def

text \<open>
  Claim C1. For a selection \<open>0 \<le> s \<le> e \<le> length buf\<close> and each of the four styles of
  the toolbar, the handler stores \<open>prefix @ transformed @ suffix\<close>, where \<open>prefix\<close> is
  \<open>buf[0..s)\<close>, \<open>suffix\<close> is \<open>buf[e..)\<close> and \<open>transformed\<close> wraps the selected text \<open>S\<close>
  as \<^verbatim>\<open>**S**\<close>, \<^verbatim>\<open>*S*\<close>, a backquoted \<open>S\<close> or \<^verbatim>\<open>- S\<close>; the caret goes to
  \<open>s + length transformed\<close>. On \<^verbatim>\<open>hello world\<close> with the selection \<open>0..5\<close>, bold gives
  \<^verbatim>\<open>**hello** world\<close> and the caret position 9.
\<close>

theorem insertFormatting_recognized:
  assumes "s \<le> e" and "e \<le> length (userReport st)"
    and "format \<in> {js ''bold'', js ''italic'', js ''code'', js ''list''}"
  shows
    "(let buf = userReport st;
          S = take (e - s) (drop s buf);
          transformed =
            (if format = js ''bold'' then js ''**'' @ S @ js ''**''
             else if format = js ''italic'' then js ''*'' @ S @ js ''*''
             else if format = js ''code'' then js ''`'' @ S @ js ''`''
             else js ''- '' @ S)
      in insertFormatting format (Some \<lparr>selectionStart = s, selectionEnd = e\<rparr>) st =
           (st\<lparr>userReport := take s buf @ transformed @ drop e buf\<rparr>,
            Some (s + length transformed)))
     \<and> insertFormatting (js ''bold'') (Some \<lparr>selectionStart = 0, selectionEnd = 5\<rparr>)
           (initial_state\<lparr>userReport := js ''hello world''\<rparr>) =
         (initial_state\<lparr>userReport := js ''**hello** world''\<rparr>, Some 9)"
proof -
  let ?ta = "\<lparr>selectionStart = s, selectionEnd = e\<rparr>"
  have range: "selectionStart ?ta \<le> selectionEnd ?ta" "selectionEnd ?ta \<le> length (userReport st)"
    using assms(1,2) by simp_all
  have general: "insertFormatting format (Some ?ta) st =
      (st\<lparr>userReport := take s (userReport st)
             @ formattedText format (take (e - s) (drop s (userReport st)))
             @ drop e (userReport st)\<rparr>,
       Some (s + length (formattedText format (take (e - s) (drop s (userReport st))))))"
    using insertFormatting_in_range [OF range, of format] by simp
  have list: "format = js ''list''"
    if "format \<noteq> js ''bold''" "format \<noteq> js ''italic''" "format \<noteq> js ''code''"
    using assms(3) that by simp
  have example: "insertFormatting (js ''bold'') (Some \<lparr>selectionStart = 0, selectionEnd = 5\<rparr>)
           (initial_state\<lparr>userReport := js ''hello world''\<rparr>) =
         (initial_state\<lparr>userReport := js ''**hello** world''\<rparr>, Some 9)"
    by (simp add: toolbar_eval initial_state_def)
  show ?thesis
    unfolding Let_def general
    using list example by (simp add: formattedText_def)
qed

theorem insertFormatting_recognized_witness:
  "(2::nat) \<le> 4 \<and> 4 \<le> length (userReport (initial_state\<lparr>userReport := js ''a bc d''\<rparr>))
   \<and> js ''italic'' \<in> {js ''bold'', js ''italic'', js ''code'', js ''list''}
   \<and> insertFormatting (js ''italic'') (Some \<lparr>selectionStart = 2, selectionEnd = 4\<rparr>)
         (initial_state\<lparr>userReport := js ''a bc d''\<rparr>) =
       (initial_state\<lparr>userReport := js ''a *bc* d''\<rparr>, Some 6)"
  using insertFormatting_recognized
    [of 2 4 "initial_state\<lparr>userReport := js ''a bc d''\<rparr>" "js ''italic''"]
  by (simp add: js_def initial_state_def)

text \<open>
  Claim C2, as the spec states it: with a style outside the four, the buffer is unchanged and
  the caret is at the selection start. The handler instead replaces the selection by the empty
  \<^verbatim>\<open>formattedText\<close>: on \<^verbatim>\<open>hello world\<close> with the selection \<open>0..5\<close> and the style
  \<^verbatim>\<open>underline\<close> the stored buffer is \<^verbatim>\<open> world\<close>.
\<close>

theorem insertFormatting_unrecognized_counterexample:
  "(0::nat) \<le> 5 \<and> 5 \<le> length (js ''hello world'')
   \<and> js ''underline'' \<notin> {js ''bold'', js ''italic'', js ''code'', js ''list''}
   \<and> insertFormatting (js ''underline'') (Some \<lparr>selectionStart = 0, selectionEnd = 5\<rparr>)
         (initial_state\<lparr>userReport := js ''hello world''\<rparr>) =
       (initial_state\<lparr>userReport := js '' world''\<rparr>, Some 0)
   \<and> userReport (fst (insertFormatting (js ''underline'')
         (Some \<lparr>selectionStart = 0, selectionEnd = 5\<rparr>)
         (initial_state\<lparr>userReport := js ''hello world''\<rparr>))) \<noteq> js ''hello world''"
  by (simp add: toolbar_eval initial_state_def)

text \<open>
  Claim C2, amended. With a style outside the four and \<open>0 \<le> s \<le> e \<le> length buf\<close>, no
  character is inserted: the stored buffer is \<open>buf[0..s) @ buf[e..)\<close>, which is the buffer
  itself when the selection is empty, and the caret goes to \<open>s\<close>.
\<close>

theorem insertFormatting_unrecognized:
  assumes "s \<le> e" and "e \<le> length (userReport st)"
    and "format \<notin> {js ''bold'', js ''italic'', js ''code'', js ''list''}"
  shows "insertFormatting format (Some \<lparr>selectionStart = s, selectionEnd = e\<rparr>) st =
           (st\<lparr>userReport := take s (userReport st) @ drop e (userReport st)\<rparr>, Some s)
         \<and> (s = e \<longrightarrow>
              insertFormatting format (Some \<lparr>selectionStart = s, selectionEnd = e\<rparr>) st
                = (st, Some s))"
proof -
  let ?ta = "\<lparr>selectionStart = s, selectionEnd = e\<rparr>"
  have range: "selectionStart ?ta \<le> selectionEnd ?ta" "selectionEnd ?ta \<le> length (userReport st)"
    using assms(1,2) by simp_all
  have empty: "formattedText format S = []" for S
    using assms(3) by (simp add: formattedText_def)
  have stored: "insertFormatting format (Some ?ta) st =
      (st\<lparr>userReport := take s (userReport st) @ drop e (userReport st)\<rparr>, Some s)"
    using insertFormatting_in_range [OF range, of format] by (simp add: empty)
  have same: "st\<lparr>userReport := take s (userReport st) @ drop e (userReport st)\<rparr> = st"
    if "s = e"
    using that by simp
  show ?thesis
  proof (intro conjI impI)
    show "insertFormatting format (Some ?ta) st =
      (st\<lparr>userReport := take s (userReport st) @ drop e (userReport st)\<rparr>, Some s)"
      by (fact stored)
  next
    assume "s = e"
    then show "insertFormatting format (Some ?ta) st = (st, Some s)"
      using stored same by simp
  qed
qed

theorem insertFormatting_unrecognized_witness:
  "(3::nat) \<le> 3 \<and> 3 \<le> length (userReport (initial_state\<lparr>userReport := js ''hello''\<rparr>))
   \<and> js ''underline'' \<notin> {js ''bold'', js ''italic'', js ''code'', js ''list''}
   \<and> insertFormatting (js ''underline'') (Some \<lparr>selectionStart = 3, selectionEnd = 3\<rparr>)
         (initial_state\<lparr>userReport := js ''hello''\<rparr>) =
       (initial_state\<lparr>userReport := js ''hello''\<rparr>, Some 3)"
  using insertFormatting_unrecognized
    [of 3 3 "initial_state\<lparr>userReport := js ''hello''\<rparr>" "js ''underline''"]
  by (simp add: js_def initial_state_def)

text \<open>
  Claim C10. Whatever the style, with \<open>0 \<le> s \<le> e \<le> length buf\<close> the stored buffer is
  \<open>buf[0..s) @ inserted @ buf[e..)\<close> for some \<open>inserted\<close> (the formatted text): the first
  \<open>s\<close> code units and the code units from \<open>e\<close> on are the old ones, in their order. No
  other cell of the state changes.
\<close>

theorem insertFormatting_frame:
  assumes "s \<le> e" and "e \<le> length (userReport st)"
  shows "\<exists>inserted st'.
           fst (insertFormatting format (Some \<lparr>selectionStart = s, selectionEnd = e\<rparr>) st) = st'
           \<and> userReport st' = take s (userReport st) @ inserted @ drop e (userReport st)
           \<and> inserted = formattedText format (take (e - s) (drop s (userReport st)))
           \<and> take s (userReport st') = take s (userReport st)
           \<and> drop (s + length inserted) (userReport st') = drop e (userReport st)
           \<and> showStackTrace st' = showStackTrace st \<and> copied st' = copied st
           \<and> screenshot st' = screenshot st"
proof -
  let ?ta = "\<lparr>selectionStart = s, selectionEnd = e\<rparr>"
  have range: "selectionStart ?ta \<le> selectionEnd ?ta" "selectionEnd ?ta \<le> length (userReport st)"
    using assms by simp_all
  have s: "s \<le> length (userReport st)"
    using assms by simp
  show ?thesis
    using insertFormatting_in_range [OF range, of format] s by simp
qed

theorem insertFormatting_frame_witness:
  "(1::nat) \<le> 2 \<and> 2 \<le> length (userReport (initial_state\<lparr>userReport := js ''abc''\<rparr>))
   \<and> (\<exists>inserted st'.
        fst (insertFormatting (js ''code'') (Some \<lparr>selectionStart = 1, selectionEnd = 2\<rparr>)
               (initial_state\<lparr>userReport := js ''abc''\<rparr>)) = st'
        \<and> userReport st' = js ''a'' @ inserted @ js ''c''
        \<and> inserted = js ''`b`'')"
  using insertFormatting_frame
    [of 1 2 "initial_state\<lparr>userReport := js ''abc''\<rparr>" "js ''code''"]
  by (simp add: js_def initial_state_def formattedText_def)

section \<open>Decoding undoes encoding\<close>

lemma emit_Inr [simp]: "emit S (Inr t) = Inr (S @ t)"
  by (simp add: emit_def)

lemma emit_eq_Inr: "emit S R = Inr u \<longleftrightarrow> (\<exists>t. R = Inr t \<and> u = S @ t)"
  by (cases R) (auto simp: emit_def)

lemma unat_of_nat_16: "n < 65536 \<Longrightarrow> unat (of_nat n :: 16 word) = n"
  by (simp add: unat_of_nat)

lemma hex_value_hex_upper: "d < 16 \<Longrightarrow> hex_value (hex_upper d) = Some d"
  by (auto simp: hex_value_def hex_upper_def word_le_nat_alt unat_of_nat_16 simp del: of_nat_add)

lemma parse_hex_octet_percent:
  "b < 256 \<Longrightarrow> parse_hex_octet (hex_upper (b div 16) # hex_upper (b mod 16) # r) = Some (b, r)"
  by (simp add: parse_hex_octet_def hex_value_hex_upper)

lemma continuation_octets_Nil: "continuation_octets 0 r = Some ([], r)"
  by simp

lemma continuation_octets_step:
  "b < 256 \<Longrightarrow> continuation_octets (Suc j) (percent_escape b @ r) =
     (case continuation_octets j r of None \<Rightarrow> None | Some (bs, r') \<Rightarrow> Some (b # bs, r'))"
  by (simp add: percent_escape_def parse_hex_octet_percent)

lemma decode_unescaped:
  "uriUnescaped c \<Longrightarrow> decodeURIComponent (c # t) = emit [c] (decodeURIComponent t)"
  by (auto simp: uriUnescaped_def js_def)

text \<open>The positional value of the six-bit groups of a code point.\<close>

lemma radix2: "n div (b * c) * (b * c) + (n div b mod c) * b + n mod b = (n::nat)"
proof -
  have "n mod (b * c) = b * (n div b mod c) + n mod b"
    by (rule mod_mult2_eq)
  moreover have "n div (b * c) * (b * c) + n mod (b * c) = n"
    by (rule div_mult_mod_eq)
  ultimately show ?thesis
    by (simp only: mult.commute add.assoc)
qed

lemma split3: "n div 0x1000 * 0x1000 + n div 0x40 mod 0x40 * 0x40 + n mod 0x40 = (n::nat)"
  using radix2 [of n "0x40" "0x40"] by simp

lemma split4:
  "n div 0x40000 * 0x40000 + n div 0x1000 mod 0x40 * 0x1000 + n div 0x40 mod 0x40 * 0x40
     + n mod 0x40 = (n::nat)"
proof -
  have a: "n div 0x40000 * 0x40000 + n div 0x1000 mod 0x40 * 0x1000 + n mod 0x1000 = n"
    using radix2 [of n "0x1000" "0x40"] by simp
  have b: "n mod 0x1000 = n div 0x40 mod 0x40 * 0x40 + n mod 0x40"
    using mod_mult2_eq [of n "0x40" "0x40"] by simp
  show ?thesis
    using a unfolding b by (simp only: add.assoc)
qed

text \<open>One escaped code point, by the number of its octets.\<close>

lemma decode_1:
  assumes "cp < 0x80"
  shows "decodeURIComponent (concat (map percent_escape (utf8_octets cp)) @ t)
         = emit [of_nat cp] (decodeURIComponent t)"
  using assms
  by (simp add: utf8_octets_def percent_escape_def parse_hex_octet_percent leading_ones_def)

lemma decode_2:
  assumes "0x80 \<le> cp" "cp < 0x800"
  shows "decodeURIComponent (concat (map percent_escape (utf8_octets cp)) @ t)
         = emit (utf16_encode_code_point cp) (decodeURIComponent t)"
proof -
  let ?b0 = "0xC0 + cp div 0x40" and ?b1 = "0x80 + cp mod 0x40"
  have b: "?b0 < 256" "?b1 < 256" "0xC0 \<le> ?b0" "?b0 < 0xE0"
    using assms by simp_all
  have V: "(?b0 - 0xC0) * 0x40 + (?b1 - 0x80) = cp"
    by simp
  have cont: "continuation_octets (Suc 0) (percent_escape ?b1 @ t) = Some ([?b1], t)"
    using b(2)
    by (simp add: continuation_octets_step continuation_octets_Nil del: continuation_octets.simps)
  have code: "utf8_code_point [?b0, ?b1] = Some cp"
    using assms V by (simp add: is_continuation_def Let_def del: One_nat_def)
  have oct: "utf8_octets cp = [?b0, ?b1]"
    using assms by (simp add: utf8_octets_def)
  have lo: "leading_ones ?b0 = 2"
    using b by (simp add: leading_ones_def)
  have "decodeURIComponent (0x25 # hex_upper (?b0 div 16) # hex_upper (?b0 mod 16)
            # percent_escape ?b1 @ t)
        = emit (utf16_encode_code_point cp) (decodeURIComponent t)"
    using cont code
    by (simp add: parse_hex_octet_percent [OF b(1)] lo Let_def
             del: continuation_octets.simps utf8_code_point.simps)
  then show ?thesis
    by (simp add: oct percent_escape_def)
qed

lemma decode_3:
  assumes "0x800 \<le> cp" "cp < 0x10000" "\<not> (0xD800 \<le> cp \<and> cp \<le> 0xDFFF)"
  shows "decodeURIComponent (concat (map percent_escape (utf8_octets cp)) @ t)
         = emit (utf16_encode_code_point cp) (decodeURIComponent t)"
proof -
  let ?b0 = "0xE0 + cp div 0x1000" and ?b1 = "0x80 + cp div 0x40 mod 0x40"
    and ?b2 = "0x80 + cp mod 0x40"
  have b: "?b0 < 256" "?b1 < 256" "?b2 < 256" "0xE0 \<le> ?b0" "?b0 < 0xF0"
    using assms by simp_all
  have V: "(?b0 - 0xE0) * 0x1000 + (?b1 - 0x80) * 0x40 + (?b2 - 0x80) = cp"
    by (simp only: add_diff_cancel_left' split3)
  have cont: "continuation_octets (Suc (Suc 0)) (percent_escape ?b1 @ percent_escape ?b2 @ t)
                = Some ([?b1, ?b2], t)"
    using b(2,3)
    by (simp add: continuation_octets_step continuation_octets_Nil del: continuation_octets.simps)
  have code: "utf8_code_point [?b0, ?b1, ?b2] = Some cp"
    using assms unfolding utf8_code_point.simps Let_def V
    by (simp add: is_continuation_def)
  have oct: "utf8_octets cp = [?b0, ?b1, ?b2]"
    using assms by (simp add: utf8_octets_def)
  have lo: "leading_ones ?b0 = 3"
    using b by (simp add: leading_ones_def)
  have "decodeURIComponent (0x25 # hex_upper (?b0 div 16) # hex_upper (?b0 mod 16)
            # percent_escape ?b1 @ percent_escape ?b2 @ t)
        = emit (utf16_encode_code_point cp) (decodeURIComponent t)"
    using cont code
    by (simp add: parse_hex_octet_percent [OF b(1)] lo Let_def numeral_3_eq_3
             del: continuation_octets.simps utf8_code_point.simps)
  then show ?thesis
    by (simp add: oct percent_escape_def)
qed

lemma decode_4:
  assumes "0x10000 \<le> cp" "cp \<le> 0x10FFFF"
  shows "decodeURIComponent (concat (map percent_escape (utf8_octets cp)) @ t)
         = emit (utf16_encode_code_point cp) (decodeURIComponent t)"
proof -
  let ?b0 = "0xF0 + cp div 0x40000" and ?b1 = "0x80 + cp div 0x1000 mod 0x40"
    and ?b2 = "0x80 + cp div 0x40 mod 0x40" and ?b3 = "0x80 + cp mod 0x40"
  have b: "?b0 < 256" "?b1 < 256" "?b2 < 256" "?b3 < 256" "0xF0 \<le> ?b0" "?b0 < 0xF8"
    using assms by simp_all
  have V: "(?b0 - 0xF0) * 0x40000 + (?b1 - 0x80) * 0x1000 + (?b2 - 0x80) * 0x40 + (?b3 - 0x80) = cp"
    by (simp only: add_diff_cancel_left' split4)
  have cont: "continuation_octets 3
                (percent_escape ?b1 @ percent_escape ?b2 @ percent_escape ?b3 @ t)
                = Some ([?b1, ?b2, ?b3], t)"
    unfolding numeral_3_eq_3
    using b(2,3,4)
    by (simp add: continuation_octets_step continuation_octets_Nil del: continuation_octets.simps)
  have code: "utf8_code_point [?b0, ?b1, ?b2, ?b3] = Some cp"
    using assms unfolding utf8_code_point.simps Let_def V
    by (simp add: is_continuation_def)
  have oct: "utf8_octets cp = [?b0, ?b1, ?b2, ?b3]"
    using assms by (simp add: utf8_octets_def)
  have lo: "leading_ones ?b0 = 4"
    using b by (simp add: leading_ones_def)
  have "decodeURIComponent (0x25 # hex_upper (?b0 div 16) # hex_upper (?b0 mod 16)
            # percent_escape ?b1 @ percent_escape ?b2 @ percent_escape ?b3 @ t)
        = emit (utf16_encode_code_point cp) (decodeURIComponent t)"
    using cont code
    by (simp add: parse_hex_octet_percent [OF b(1)] lo Let_def
             del: continuation_octets.simps utf8_code_point.simps)
  then show ?thesis
    by (simp add: oct percent_escape_def)
qed

lemma utf16_of_unit: "utf16_encode_code_point (unat (c :: codeunit)) = [c]"
proof -
  have "unat c < 2 ^ 16"
    using unsigned_less [of c] by simp
  then show ?thesis
    by (simp add: utf16_encode_code_point_def)
qed

lemma surrogate_bounds:
  assumes "is_lead c" "is_trail d"
  shows "0xD800 \<le> unat c" "unat c \<le> 0xDBFF" "0xDC00 \<le> unat d" "unat d \<le> 0xDFFF"
    using assms by (simp_all add: is_lead_def is_trail_def word_le_nat_alt)

lemma divmod_1024: "b < 0x400 \<Longrightarrow> (a * 0x400 + b) div 0x400 = (a::nat)"
   "b < 0x400 \<Longrightarrow> (a * 0x400 + b) mod 0x400 = (b::nat)"
  by simp_all

lemma pair_code_point:
  assumes "is_lead c" "is_trail d"
  shows "surrogate_pair_to_code_point c d
           = 0x10000 + ((unat c - 0xD800) * 0x400 + (unat d - 0xDC00))"
    and "unat c - 0xD800 < 0x400" and "unat d - 0xDC00 < 0x400"
    and "unat c - 0xD800 + 0xD800 = unat c" and "unat d - 0xDC00 + 0xDC00 = unat d"
  using surrogate_bounds [OF assms] by (simp_all add: surrogate_pair_to_code_point_def)

lemma pair_range:
  assumes "is_lead c" "is_trail d"
  shows "0x10000 \<le> surrogate_pair_to_code_point c d"
    and "surrogate_pair_to_code_point c d \<le> 0x10FFFF"
proof -
  define a where "a = unat c - 0xD800"
  define b where "b = unat d - 0xDC00"
  have cp: "surrogate_pair_to_code_point c d = 0x10000 + (a * 0x400 + b)"
    and ab: "a < 0x400" "b < 0x400"
    unfolding a_def b_def by (rule pair_code_point [OF assms])+
  show "0x10000 \<le> surrogate_pair_to_code_point c d"
    unfolding cp by simp
  have "a * 0x400 \<le> 0x3FF * 0x400"
    using ab(1) by simp
  then show "surrogate_pair_to_code_point c d \<le> 0x10FFFF"
    unfolding cp using ab(2) by simp
qed

lemma utf16_of_pair:
  assumes "is_lead c" "is_trail d"
  shows "utf16_encode_code_point (surrogate_pair_to_code_point c d) = [c, d]"
proof -
  define a where "a = unat c - 0xD800"
  define b where "b = unat d - 0xDC00"
  have cp: "surrogate_pair_to_code_point c d = 0x10000 + (a * 0x400 + b)"
    and ab: "a < 0x400" "b < 0x400"
    and un: "a + 0xD800 = unat c" "b + 0xDC00 = unat d"
    unfolding a_def b_def by (rule pair_code_point [OF assms])+
  let ?cp = "surrogate_pair_to_code_point c d"
  have sub: "?cp - 0x10000 = a * 0x400 + b"
    unfolding cp by simp
  have hi: "(?cp - 0x10000) div 0x400 + 0xD800 = unat c"
    unfolding sub divmod_1024(1) [OF ab(2)] by (rule un(1))
  have lo: "(?cp - 0x10000) mod 0x400 + 0xDC00 = unat d"
    unfolding sub divmod_1024(2) [OF ab(2)] by (rule un(2))
  have big: "\<not> ?cp \<le> 0xFFFF"
    unfolding cp by simp
  show ?thesis
    unfolding utf16_encode_code_point_def hi lo using big by simp
qed


lemma decode_unit:
  assumes "\<not> is_lead c" "\<not> is_trail c"
  shows "decodeURIComponent (concat (map percent_escape (utf8_octets (unat c))) @ t)
         = emit [c] (decodeURIComponent t)"
proof -
  have lt: "unat c < 0x10000"
    using unsigned_less [of c] by simp
  have ns: "\<not> (0xD800 \<le> unat c \<and> unat c \<le> 0xDFFF)"
    using assms by (auto simp: is_lead_def is_trail_def word_le_nat_alt)
  consider "unat c < 0x80" | "0x80 \<le> unat c" "unat c < 0x800" | "0x800 \<le> unat c"
    by linarith
  then show ?thesis
  proof cases
    case 1
    then show ?thesis using decode_1 [of "unat c" t] by simp
  next
    case 2
    then show ?thesis using decode_2 [of "unat c" t] by (simp add: utf16_of_unit)
  next
    case 3
    then show ?thesis using decode_3 [OF _ lt ns, of t] by (simp add: utf16_of_unit)
  qed
qed

lemma decode_pair:
  assumes "is_lead c" "is_trail d"
  shows "decodeURIComponent
           (concat (map percent_escape (utf8_octets (surrogate_pair_to_code_point c d))) @ t)
         = emit [c, d] (decodeURIComponent t)"
  using decode_4 [OF pair_range [OF assms], of t] by (simp add: utf16_of_pair [OF assms])

lemma decode_encode:
  "encodeURIComponent s = Inr t \<Longrightarrow> decodeURIComponent t = Inr s"
proof (induction s arbitrary: t rule: encodeURIComponent.induct)
  case 1
  then show ?case by simp
next
  case (2 c rest)
  show ?case
  proof (cases "uriUnescaped c")
    case True
    with "2.prems" obtain t' where t': "encodeURIComponent rest = Inr t'" "t = c # t'"
      by (auto simp: emit_eq_Inr)
    with True "2.IH"(1) show ?thesis
      by (simp add: decode_unescaped del: decodeURIComponent.simps)
  next
    case False
    note esc = this
    show ?thesis
    proof (cases "is_trail c")
      case True
      with esc "2.prems" show ?thesis by simp
    next
      case False
      note nt = this
      show ?thesis
      proof (cases "is_lead c")
        case True
        with esc nt "2.prems" obtain d rest' t' where
          r: "rest = d # rest'" "is_trail d" "encodeURIComponent rest' = Inr t'"
             "t = concat (map percent_escape (utf8_octets (surrogate_pair_to_code_point c d))) @ t'"
          by (auto simp: emit_eq_Inr split: list.splits if_splits)
        from "2.IH"(2) [OF esc nt True r(1) r(2) r(3)]
        have "decodeURIComponent t' = Inr rest'" .
        then show ?thesis
          using r decode_pair [OF True r(2), of t'] by simp
      next
        case False
        with esc nt "2.prems" obtain t' where
          r: "encodeURIComponent rest = Inr t'"
             "t = concat (map percent_escape (utf8_octets (unat c))) @ t'"
          by (auto simp: emit_eq_Inr)
        from "2.IH"(3) [OF esc nt False r(1)]
        have "decodeURIComponent t' = Inr rest" .
        then show ?thesis
          using r decode_unit [OF False nt, of t'] by simp
      qed
    qed
  qed
qed

section \<open>When encoding succeeds, and what it writes\<close>

lemma unescaped_not_surrogate: "uriUnescaped c \<Longrightarrow> \<not> is_lead c \<and> \<not> is_trail c"
  by (auto simp: uriUnescaped_def is_lead_def is_trail_def js_def word_le_nat_alt)

lemma encode_wellformed: "isWellFormed s \<Longrightarrow> \<exists>t. encodeURIComponent s = Inr t"
proof (induction s rule: isWellFormed.induct)
  case 1
  then show ?case by simp
next
  case (2 c rest)
  show ?case
  proof (cases "is_lead c")
    case True
    with "2.prems" obtain d rest' where r: "rest = d # rest'" "is_trail d" "isWellFormed rest'"
      and nt: "\<not> is_trail c"
      by (auto split: if_splits list.splits)
    from "2.IH"(1) [OF nt True r(1) r(3)] obtain t' where "encodeURIComponent rest' = Inr t'"
      by blast
    then show ?thesis
      using True nt r unescaped_not_surrogate [of c] by auto
  next
    case False
    with "2.prems" have nt: "\<not> is_trail c" and "isWellFormed rest"
      by (auto split: if_splits)
    with "2.IH"(2) [OF nt False] obtain t' where "encodeURIComponent rest = Inr t'"
      by blast
    then show ?thesis
      using False nt by auto
  qed
qed

lemma encode_illformed: "encodeURIComponent s = Inr t \<Longrightarrow> isWellFormed s"
proof (induction s arbitrary: t rule: isWellFormed.induct)
  case 1
  then show ?case by simp
next
  case (2 c rest)
  show ?case
  proof (cases "uriUnescaped c")
    case True
    then have ns: "\<not> is_lead c" "\<not> is_trail c"
      using unescaped_not_surrogate by simp_all
    from True "2.prems" obtain t' where "encodeURIComponent rest = Inr t'"
      by (auto simp: emit_eq_Inr)
    with "2.IH"(2) [OF ns(2) ns(1)] ns show ?thesis
      by simp
  next
    case esc: False
    show ?thesis
    proof (cases "is_trail c")
      case True
      with esc "2.prems" show ?thesis by simp
    next
      case nt: False
      show ?thesis
      proof (cases "is_lead c")
        case True
        with esc nt "2.prems" obtain d rest' t' where
          r: "rest = d # rest'" "is_trail d" "encodeURIComponent rest' = Inr t'"
          by (auto simp: emit_eq_Inr split: list.splits if_splits)
        with "2.IH"(1) [OF nt True r(1)] nt True show ?thesis
          by simp
      next
        case False
        with esc nt "2.prems" obtain t' where "encodeURIComponent rest = Inr t'"
          by (auto simp: emit_eq_Inr)
        with "2.IH"(2) [OF nt False] nt False show ?thesis
          by simp
      qed
    qed
  qed
qed

lemma isWellFormed_append:
  "isWellFormed a \<Longrightarrow> isWellFormed b \<Longrightarrow> isWellFormed (a @ b)"
  by (induction a rule: isWellFormed.induct) (auto split: if_splits list.splits)

lemma unat_of_char: "unat (of_char c :: codeunit) = of_char c"
proof -
  have "(of_char c :: codeunit) = of_nat (of_char c)"
    by (simp only: of_nat_of_char)
  moreover have "(of_char c :: nat) < 65536"
    using nat_of_char_less_256 [of c] by linarith
  ultimately show ?thesis
    by (simp only: unat_of_nat_16)
qed

lemma of_char_not_surrogate: "\<not> is_lead (of_char c) \<and> \<not> is_trail (of_char c)"
proof -
  have "unat (of_char c :: codeunit) < 256"
    by (simp only: unat_of_char nat_of_char_less_256)
  then show ?thesis
    unfolding is_lead_def is_trail_def word_le_nat_alt by simp
qed

lemma isWellFormed_js: "isWellFormed (js s)"
  by (induction s) (simp_all add: js_def of_char_not_surrogate)

text \<open>Every code unit that \<^verbatim>\<open>encodeURIComponent\<close> writes is an unescaped one or the percent
  sign, so none of them ends a query parameter.\<close>

lemma hex_upper_safe: "d < 16 \<Longrightarrow> uriUnescaped (hex_upper d)"
  by (auto simp: uriUnescaped_def hex_upper_def word_le_nat_alt unat_of_nat_16 simp del: of_nat_add)

lemma percent_escape_safe: "b < 256 \<Longrightarrow> list_all uri_safe (percent_escape b)"
  by (simp add: percent_escape_def uri_safe_def hex_upper_safe)

lemma utf8_octets_bound:
  assumes "cp \<le> 0x10FFFF"
  shows "list_all (\<lambda>b. b < 256) (utf8_octets cp)"
proof -
  consider "cp < 0x80" | "0x80 \<le> cp" "cp < 0x800" | "0x800 \<le> cp" "cp < 0x10000"
    | "0x10000 \<le> cp"
    by linarith
  then show ?thesis
  proof cases
    case 1
    then show ?thesis by (simp add: utf8_octets_def)
  next
    case 2
    then have "0xC0 + cp div 0x40 < 256" "0x80 + cp mod 0x40 < 256"
      by simp_all
    with 2 show ?thesis by (simp add: utf8_octets_def)
  next
    case 3
    then have "0xE0 + cp div 0x1000 < 256" "0x80 + cp div 0x40 mod 0x40 < 256"
      "0x80 + cp mod 0x40 < 256"
      by simp_all
    with 3 show ?thesis by (simp add: utf8_octets_def)
  next
    case 4
    with assms have "0xF0 + cp div 0x40000 < 256" "0x80 + cp div 0x1000 mod 0x40 < 256"
      "0x80 + cp div 0x40 mod 0x40 < 256" "0x80 + cp mod 0x40 < 256"
      by simp_all
    with 4 show ?thesis by (simp add: utf8_octets_def)
  qed
qed

lemma escaped_safe:
  assumes "cp \<le> 0x10FFFF"
  shows "list_all uri_safe (concat (map percent_escape (utf8_octets cp)))"
proof -
  have "\<forall>b\<in>set (utf8_octets cp). b < 256"
    using utf8_octets_bound [OF assms] by (simp add: list_all_iff)
  then have "\<forall>b\<in>set (utf8_octets cp). \<forall>c\<in>set (percent_escape b). uri_safe c"
    using percent_escape_safe by (auto simp: list_all_iff)
  then show ?thesis
    by (simp add: list_all_iff)
qed

lemma encode_safe: "encodeURIComponent s = Inr t \<Longrightarrow> list_all uri_safe t"
proof (induction s arbitrary: t rule: encodeURIComponent.induct)
  case 1
  then show ?case by simp
next
  case (2 c rest)
  show ?case
  proof (cases "uriUnescaped c")
    case True
    with "2.prems" obtain t' where t': "encodeURIComponent rest = Inr t'" "t = c # t'"
      by (auto simp: emit_eq_Inr)
    with True "2.IH"(1) show ?thesis
      by (simp add: uri_safe_def)
  next
    case esc: False
    show ?thesis
    proof (cases "is_trail c")
      case True
      with esc "2.prems" show ?thesis by simp
    next
      case nt: False
      show ?thesis
      proof (cases "is_lead c")
        case True
        with esc nt "2.prems" obtain d rest' t' where
          r: "rest = d # rest'" "is_trail d" "encodeURIComponent rest' = Inr t'"
             "t = concat (map percent_escape (utf8_octets (surrogate_pair_to_code_point c d))) @ t'"
          by (auto simp: emit_eq_Inr split: list.splits if_splits)
        from "2.IH"(2) [OF esc nt True r(1) r(2) r(3)] have "list_all uri_safe t'" .
        then show ?thesis
          using r(4) escaped_safe [OF pair_range(2) [OF True r(2)]] by simp
      next
        case False
        with esc nt "2.prems" obtain t' where
          r: "encodeURIComponent rest = Inr t'"
             "t = concat (map percent_escape (utf8_octets (unat c))) @ t'"
          by (auto simp: emit_eq_Inr)
        from "2.IH"(3) [OF esc nt False r(1)] have t': "list_all uri_safe t'" .
        have "unat c < 2 ^ 16"
          using unsigned_less [of c] by simp
        then have "unat c \<le> 0x10FFFF"
          by simp
        then show ?thesis
          using r(2) t' escaped_safe by simp
      qed
    qed
  qed
qed

lemma uri_safe_delimiters:
  "uri_safe c \<Longrightarrow> c \<noteq> 0x26 \<and> c \<noteq> 0x23 \<and> c \<noteq> 0x3D \<and> c \<noteq> 0x3F"
  by (auto simp: uri_safe_def uriUnescaped_def js_def)

subsection \<open>The parameters of the issue URL\<close>

lemma split_on_no_sep: "sep \<notin> set a \<Longrightarrow> split_on sep a = [a]"
  by (induction a) auto

lemma split_on_append:
  "sep \<notin> set a \<Longrightarrow> split_on sep (a @ sep # b) = a # split_on sep b"
  by (induction a) auto

lemma query_params_issue_url:
  assumes "list_all uri_safe title" "list_all uri_safe body"
  shows "query_params (issue_url title body) = [(js ''title'', title), (js ''body'', body)]"
proof -
  have t: "0x26 \<notin> set title" "0x23 \<notin> set title"
    and b: "0x26 \<notin> set body" "0x23 \<notin> set body"
    using assms uri_safe_delimiters by (auto simp: list_all_iff)
  let ?q = "js ''title='' @ title @ js ''&body='' @ body"
  have "dropWhile (\<lambda>c. c \<noteq> 0x3F) (issue_url title body) = 0x3F # ?q"
    by (simp add: issue_url_def js_def)
  moreover have "takeWhile (\<lambda>c. c \<noteq> 0x23) ?q = ?q"
    using t b by (auto simp: takeWhile_eq_all_conv js_def)
  ultimately have q: "url_query (issue_url title body) = ?q"
    by (simp add: url_query_def)
  have shape: "?q = (js ''title='' @ title) @ 0x26 # (js ''body='' @ body)"
    by (simp add: js_def)
  have no_amp: "0x26 \<notin> set (js ''title='' @ title)" "0x26 \<notin> set (js ''body='' @ body)"
    using t b by (simp_all add: js_def)
  have "split_on 0x26 ?q = (js ''title='' @ title) # split_on 0x26 (js ''body='' @ body)"
    unfolding shape by (rule split_on_append [OF no_amp(1)])
  also have "split_on 0x26 (js ''body='' @ body) = [js ''body='' @ body]"
    by (rule split_on_no_sep [OF no_amp(2)])
  finally have "split_on 0x26 ?q = [js ''title='' @ title, js ''body='' @ body]" .
  then show ?thesis
    by (simp add: query_params_def q) (simp add: js_def)
qed

section \<open>Parsing undoes serialisation\<close>

lemma hex_value_hex_lower: "d < 16 \<Longrightarrow> hex_value (hex_lower d) = Some d"
  by (auto simp: hex_value_def hex_lower_def word_le_nat_alt unat_of_nat_16 simp del: of_nat_add)

lemma split_hex4:
  "0x1000 * (n div 0x1000) + 0x100 * (n div 0x100 mod 0x10) + 0x10 * (n div 0x10 mod 0x10)
     + n mod 0x10 = (n::nat)"
proof -
  have a: "n div 0x1000 * 0x1000 + n div 0x100 mod 0x10 * 0x100 + n mod 0x100 = n"
    using radix2 [of n "0x100" "0x10"] by simp
  have b: "n mod 0x100 = n div 0x10 mod 0x10 * 0x10 + n mod 0x10"
    using mod_mult2_eq [of n "0x10" "0x10"] by simp
  show ?thesis
    using a unfolding b by (simp only: add.assoc mult.commute)
qed

lemma hex4_unicode_escape:
  "unicode_escape c = [0x5C, 0x75, h1, h2, h3, h4] \<Longrightarrow> hex4 h1 h2 h3 h4 = Some c"
proof -
  assume u: "unicode_escape c = [0x5C, 0x75, h1, h2, h3, h4]"
  let ?n = "unat c"
  have n: "?n < 0x10000"
    using unsigned_less [of c] by simp
  then have d: "?n div 0x1000 < 16" "?n div 0x100 mod 0x10 < 16" "?n div 0x10 mod 0x10 < 16"
    "?n mod 0x10 < 16"
    by simp_all
  have h: "h1 = hex_lower (?n div 0x1000)" "h2 = hex_lower (?n div 0x100 mod 0x10)"
    "h3 = hex_lower (?n div 0x10 mod 0x10)" "h4 = hex_lower (?n mod 0x10)"
    using u by (simp_all add: unicode_escape_def Let_def)
  show ?thesis
    unfolding hex4_def h
    by (simp only: hex_value_hex_lower [OF d(1)] hex_value_hex_lower [OF d(2)]
          hex_value_hex_lower [OF d(3)] hex_value_hex_lower [OF d(4)] split_hex4
          prod.case option.case of_nat_unat) simp
qed

lemma parse_chars_unicode:
  "parse_chars (unicode_escape c @ t) = cons_char c (parse_chars t)"
proof -
  obtain h1 h2 h3 h4 where u: "unicode_escape c = [0x5C, 0x75, h1, h2, h3, h4]"
    by (simp add: unicode_escape_def Let_def)
  show ?thesis
    by (simp add: u hex4_unicode_escape [OF u])
qed

lemma parse_chars_escape:
  "json_escape c = Some e \<Longrightarrow> parse_chars (e @ t) = cons_char c (parse_chars t)"
  by (auto simp: json_escape_def json_unescape_def split: if_splits)

lemma parse_chars_plain:
  "json_escape c = None \<Longrightarrow> \<not> c < 0x20 \<Longrightarrow> parse_chars (c # t) = cons_char c (parse_chars t)"
  by (auto simp: json_escape_def split: if_splits)

lemma trail_plain: "is_trail d \<Longrightarrow> json_escape d = None \<and> \<not> d < 0x20"
  by (auto simp: is_trail_def json_escape_def word_le_nat_alt word_less_nat_alt)

lemma lead_plain: "is_lead d \<Longrightarrow> json_escape d = None \<and> \<not> d < 0x20"
  by (auto simp: is_lead_def json_escape_def word_le_nat_alt word_less_nat_alt)

text \<open>A quoted string is read back as the string, whatever follows the closing quote.\<close>

lemma parse_chars_quote_chars:
  "parse_chars (quote_chars s @ 0x22 # rest) = Some (s, rest)"
proof (induction s rule: quote_chars.induct)
  case 1
  show ?case by simp
next
  case (2 c r)
  let ?tail = "parse_chars (quote_chars r @ 0x22 # rest) = Some (r, rest)"
  show ?case
  proof (cases "json_escape c")
    case (Some e)
    with "2.IH" have ?tail
      by blast
    with Some show ?thesis
      by (simp add: parse_chars_escape cons_char_def del: parse_chars.simps)
  next
    case None
    note esc = this
    show ?thesis
    proof (cases "c < 0x20")
      case True
      with esc "2.IH" have ?tail
        by blast
      with esc True show ?thesis
        by (simp add: parse_chars_unicode cons_char_def del: parse_chars.simps)
    next
      case False
      note ctl = this
      show ?thesis
      proof (cases "is_lead c")
        case True
        note lead = this
        show ?thesis
        proof (cases r)
          case Nil
          have "parse_chars (unicode_escape c @ 0x22 # rest) = Some ([c], rest)"
            by (simp add: parse_chars_unicode cons_char_def del: parse_chars.simps) simp
          with esc ctl lead Nil show ?thesis
            by (simp del: parse_chars.simps)
        next
          case (Cons d r')
          show ?thesis
          proof (cases "is_trail d")
            case True
            with esc ctl lead Cons "2.IH"
            have "parse_chars (quote_chars r' @ 0x22 # rest) = Some (r', rest)"
              by blast
            then have "parse_chars (c # d # quote_chars r' @ 0x22 # rest) = Some (c # d # r', rest)"
              using trail_plain [OF True] esc ctl
              by (simp add: parse_chars_plain cons_char_def del: parse_chars.simps)
            with esc ctl lead Cons True show ?thesis
              by (simp del: parse_chars.simps)
          next
            case False
            with esc ctl lead Cons "2.IH" have ?tail
              by blast
            then have "parse_chars (unicode_escape c @ quote_chars r @ 0x22 # rest)
                         = Some (c # r, rest)"
              by (simp add: parse_chars_unicode cons_char_def del: parse_chars.simps)
            with esc ctl lead Cons False show ?thesis
              by (simp del: parse_chars.simps)
          qed
        qed
      next
        case False
        note nl = this
        show ?thesis
        proof (cases "is_trail c")
          case True
          with esc ctl nl "2.IH" have ?tail
            by blast
          with esc ctl nl True show ?thesis
            by (simp add: parse_chars_unicode cons_char_def del: parse_chars.simps)
        next
          case False
          with esc ctl nl "2.IH" have ?tail
            by blast
          with esc ctl nl False show ?thesis
            by (simp add: parse_chars_plain cons_char_def del: parse_chars.simps)
        qed
      qed
    qed
  qed
qed

text \<open>A larger bound on the nesting reads the same value.\<close>

lemma parse_fuel_step:
  "parse_value n s = Some r \<Longrightarrow> parse_value (Suc n) s = Some r"
  "parse_members n acc s = Some r \<Longrightarrow> parse_members (Suc n) acc s = Some r"
proof (induction n s and n acc s arbitrary: r and r rule: parse_value_parse_members.induct)
  case (1 s)
  then show ?case by simp
next
  case (2 n s)
  from "2.prems" obtain c t where ws: "skip_ws s = c # t"
    by (auto split: list.splits)
  show ?case
  proof (cases "c = 0x22")
    case True
    with "2.prems" ws show ?thesis
      by (simp split: option.splits)
  next
    case False
    with "2.prems" ws obtain d t' where
      open_brace: "c = 0x7B" and ws': "skip_ws t = d # t'"
      by (auto split: list.splits if_splits)
    show ?thesis
    proof (cases "d = 0x7D")
      case True
      with "2.prems" ws open_brace ws' show ?thesis
        by simp
    next
      case False
      with "2.prems" ws open_brace ws' have "parse_members n [] (d # t') = Some r"
        by simp
      with "2.IH" ws open_brace ws' False have "parse_members (Suc n) [] (d # t') = Some r"
        by simp
      with ws open_brace ws' False show ?thesis
        by (simp add: parse_value.simps(2) [of "Suc n"] del: parse_value.simps parse_members.simps)
    qed
  qed
next
  case (3 acc s)
  then show ?case by simp
next
  case (4 n acc s)
  from "4.prems" obtain k r2 v r3 c3 r4 where
    key: "parse_key s = Some (k, r2)" and val: "parse_value n r2 = Some (v, r3)"
    and ws: "skip_ws r3 = c3 # r4"
    by (auto split: option.splits list.splits)
  from "4.IH"(1) key val have val': "parse_value (Suc n) r2 = Some (v, r3)"
    by simp
  show ?case
  proof (cases "c3 = 0x2C")
    case True
    with "4.prems" key val ws have "parse_members n (define_prop acc k v) r4 = Some r"
      by simp
    with "4.IH"(2) key val ws True
    have "parse_members (Suc n) (define_prop acc k v) r4 = Some r"
      by simp
    with key val' ws True show ?thesis
      by (simp add: parse_members.simps(2) [of "Suc n"] del: parse_value.simps parse_members.simps)
  next
    case False
    with "4.prems" key val ws have "c3 = 0x7D" "r = (Obj (define_prop acc k v), r4)"
      by (auto split: if_splits)
    with key val' ws False show ?thesis
      by (simp add: parse_members.simps(2) [of "Suc n"] del: parse_value.simps parse_members.simps)
  qed
qed

lemma parse_fuel_mono:
  "parse_value n s = Some r \<Longrightarrow> n \<le> m \<Longrightarrow> parse_value m s = Some r"
proof (induction m)
  case 0
  then show ?case by simp
next
  case (Suc m)
  show ?case
  proof (cases "n = Suc m")
    case True
    with Suc.prems show ?thesis by simp
  next
    case False
    with Suc.prems have "n \<le> m" by simp
    with Suc show ?thesis
      using parse_fuel_step(1) by blast
  qed
qed

subsection \<open>The report\<close>

lemma of_char_codeunit_eq: "(of_char a :: codeunit) = of_char b \<longleftrightarrow> a = b"
proof
  assume "(of_char a :: codeunit) = of_char b"
  then have "unat (of_char a :: codeunit) = unat (of_char b :: codeunit)"
    by simp
  then have "(of_char a :: nat) = of_char b"
    by (simp only: unat_of_char)
  then show "a = b"
    by simp
qed simp

lemma js_eq: "js a = js b \<longleftrightarrow> a = b"
proof -
  have "inj (of_char :: char \<Rightarrow> codeunit)"
    by (rule injI) (simp add: of_char_codeunit_eq)
  then show ?thesis
    by (simp add: js_def inj_map_eq_map)
qed

text \<open>What is read back from the serialised report: the report without the properties that
  were \<^verbatim>\<open>undefined\<close>.\<close>

lemma parse_report_json:
  "JSON_parse (report_json e error st) =
     Inr (Obj [(js ''timestamp'', Str (now_iso e)),
               (js ''error'',
                  Obj ([(js ''name'', Str (name error)), (js ''message'', Str (message error))]
                       @ (case stack error of None \<Rightarrow> [] | Some s \<Rightarrow> [(js ''stack'', Str s)])
                       @ (case digest error of None \<Rightarrow> [] | Some s \<Rightarrow> [(js ''digest'', Str s)]))),
               (js ''userReport'', Str (userReport st)),
               (js ''userAgent'', Str (userAgent e)),
               (js ''url'', Str (href e)),
               (js ''screenshot'', Str (or_default (screenshot st) (js ''No screenshot captured'')))])"
  (is "JSON_parse ?text = Inr ?v")
proof -
  let ?fuel = "Suc (Suc (Suc (Suc (Suc (Suc (Suc (Suc (Suc (Suc (Suc (Suc 0)))))))))))"
  have run: "parse_value ?fuel ?text = Some (?v, [])"
    by (cases "stack error"; cases "digest error")
       (simp_all add: report_json_def report_def JSON_stringify_def interp_def gap_def
          QuoteJSONString_def parse_key_def parse_string_def skip_ws_def is_ws_def
          parse_chars_quote_chars js_eq)
  have "?fuel \<le> length ?text"
    by (cases "stack error"; cases "digest error")
       (simp_all add: report_json_def report_def JSON_stringify_def interp_def gap_def
          QuoteJSONString_def)
  from parse_fuel_mono [OF run this] show ?thesis
    by (simp add: JSON_parse_def skip_ws_def)
qed

section \<open>The issue URL\<close>

lemma issue_text_wellformed:
  assumes "text_wellformed e error st"
  shows "isWellFormed (issue_title error)" and "isWellFormed (issue_body e error st)"
proof -
  have f: "isWellFormed (message error)" "isWellFormed (name error)"
    "isWellFormed (interp (stack error))" "isWellFormed (or_default (digest error) (js ''N/A''))"
    "isWellFormed (or_default (Some (userReport st)) (js ''No additional information provided''))"
    "isWellFormed (href e)" "isWellFormed (userAgent e)" "isWellFormed (now_iso e)"
    using assms
    by (auto simp: text_wellformed_def interp_def or_default_def isWellFormed_js
             split: option.splits)
  show "isWellFormed (issue_title error)"
    unfolding issue_title_def by (intro isWellFormed_append isWellFormed_js f)
  show "isWellFormed (issue_body e error st)"
    unfolding issue_body_def
    by (intro isWellFormed_append isWellFormed_js f) (simp add: isWellFormed_js)
qed

text \<open>On well-formed text both escapes succeed, the URL has exactly the two parameters, and
  each decodes to the text that was escaped.\<close>

lemma githubUrl_wellformed:
  assumes "text_wellformed e error st"
  shows "\<exists>title body.
           githubUrl e error st = Inr (issue_url title body)
           \<and> query_params (issue_url title body) = [(js ''title'', title), (js ''body'', body)]
           \<and> decodeURIComponent title = Inr (issue_title error)
           \<and> decodeURIComponent body = Inr (issue_body e error st)"
proof -
  obtain title where title: "encodeURIComponent (issue_title error) = Inr title"
    using encode_wellformed [OF issue_text_wellformed(1) [OF assms]] by blast
  obtain body where body: "encodeURIComponent (issue_body e error st) = Inr body"
    using encode_wellformed [OF issue_text_wellformed(2) [OF assms]] by blast
  have "githubUrl e error st = Inr (issue_url title body)"
    by (simp add: githubUrl_def title body)
  moreover have "query_params (issue_url title body) = [(js ''title'', title), (js ''body'', body)]"
    by (rule query_params_issue_url [OF encode_safe [OF title] encode_safe [OF body]])
  moreover note decode_encode [OF title] decode_encode [OF body]
  ultimately show ?thesis
    by blast
qed

lemma url_param_decoded_wellformed:
  assumes "text_wellformed e error st"
  shows "url_param_decoded (githubUrl e error st) (js ''title'') = Some (issue_title error)"
    and "url_param_decoded (githubUrl e error st) (js ''body'') = Some (issue_body e error st)"
proof -
  obtain title body where u: "githubUrl e error st = Inr (issue_url title body)"
    "query_params (issue_url title body) = [(js ''title'', title), (js ''body'', body)]"
    "decodeURIComponent title = Inr (issue_title error)"
    "decodeURIComponent body = Inr (issue_body e error st)"
    using githubUrl_wellformed [OF assms] by blast
  have keys: "js ''title'' \<noteq> js ''body''"
    by (simp add: js_def)
  show "url_param_decoded (githubUrl e error st) (js ''title'') = Some (issue_title error)"
    by (simp add: url_param_decoded_def query_param_def u)
  show "url_param_decoded (githubUrl e error st) (js ''body'') = Some (issue_body e error st)"
    using keys by (simp add: url_param_decoded_def query_param_def u)
qed

lemma sample_wellformed: "text_wellformed sample_env sample_error initial_state"
  by (simp add: text_wellformed_def sample_env_def sample_error_def initial_state_def
        isWellFormed_js)

lemma sublist_message_body: "sublist (message error) (issue_body e error st)"
proof -
  have "issue_body e error st
          = js ''## Error Report\<newline>\<newline>**Error Message:** '' @ message error
            @ drop (length (js ''## Error Report\<newline>\<newline>**Error Message:** '' @ message error))
                (issue_body e error st)"
    by (simp add: issue_body_def)
  then show ?thesis
    by (metis sublist_appendI)
qed

lemma sublist_stack_body: "sublist (interp (stack error)) (issue_body e error st)"
proof -
  let ?pre = "js ''## Error Report\<newline>\<newline>**Error Message:** '' @ message error
     @ js ''\<newline>\<newline>**Error Type:** '' @ name error
     @ js ''\<newline>\<newline>**Digest:** '' @ or_default (digest error) (js ''N/A'')
     @ js ''\<newline>\<newline>**User Report:**\<newline>''
     @ or_default (Some (userReport st)) (js ''No additional information provided'')
     @ js ''\<newline>\<newline>**Stack Trace:**\<newline>```\<newline>''"
  have "issue_body e error st
          = ?pre @ interp (stack error) @ drop (length (?pre @ interp (stack error))) (issue_body e error st)"
    by (simp add: issue_body_def)
  then show ?thesis
    by (metis sublist_appendI)
qed

text \<open>
  Claim C5, as the spec states it: for every error descriptor the decoded body parameter of the
  issue URL contains the message and the stack trace. A message that is not well-formed
  UTF-16 makes \<^verbatim>\<open>encodeURIComponent\<close> throw: with the lone surrogate \<^verbatim>\<open>\uD800\<close> as the message
  there is no URL, and so no body parameter to decode.
\<close>

theorem issue_body_counterexample:
  "githubUrl sample_env (sample_error\<lparr>message := [0xD800]\<rparr>) initial_state = Inl URIError
   \<and> url_param_decoded (githubUrl sample_env (sample_error\<lparr>message := [0xD800]\<rparr>) initial_state)
        (js ''body'') = None
   \<and> createGithubIssue sample_env (sample_error\<lparr>message := [0xD800]\<rparr>) initial_state
        sample_browser = Inl URIError"
proof -
  have "encodeURIComponent (issue_title (sample_error\<lparr>message := [0xD800]\<rparr>)) = Inl URIError"
    by (simp add: issue_title_def js_def uriUnescaped_def is_lead_def is_trail_def emit_def)
  then have "githubUrl sample_env (sample_error\<lparr>message := [0xD800]\<rparr>) initial_state
               = Inl URIError"
    by (simp add: githubUrl_def)
  then show ?thesis
    by (simp add: url_param_decoded_def createGithubIssue_def)
qed

text \<open>
  Claim C5, amended. For every error descriptor, user report and environment whose texts are
  well-formed UTF-16, the handler opens a URL whose body parameter, once URL-decoded, is the
  rendered template itself, and the template contains the error message and the stack trace
  text (the word \<^verbatim>\<open>undefined\<close> when the error has no stack) code unit for code unit.
\<close>

theorem issue_body_roundtrip:
  assumes "text_wellformed e error st"
  shows "url_param_decoded (githubUrl e error st) (js ''body'') = Some (issue_body e error st)
         \<and> sublist (message error) (issue_body e error st)
         \<and> sublist (interp (stack error)) (issue_body e error st)
         \<and> (\<exists>url. createGithubIssue e error st br = Inr (br\<lparr>opened := opened br @ [(url, js ''_blank'')]\<rparr>)
                  \<and> githubUrl e error st = Inr url)"
proof -
  obtain title body where "githubUrl e error st = Inr (issue_url title body)"
    using githubUrl_wellformed [OF assms] by blast
  then have "\<exists>url. createGithubIssue e error st br = Inr (br\<lparr>opened := opened br @ [(url, js ''_blank'')]\<rparr>)
                  \<and> githubUrl e error st = Inr url"
    by (simp add: createGithubIssue_def window_open_def)
  then show ?thesis
    using url_param_decoded_wellformed(2) [OF assms] sublist_message_body sublist_stack_body
    by blast
qed

theorem issue_body_roundtrip_witness:
  "text_wellformed sample_env sample_error initial_state
   \<and> url_param_decoded (githubUrl sample_env sample_error initial_state) (js ''body'')
       = Some (issue_body sample_env sample_error initial_state)
   \<and> sublist (js ''boom'') (issue_body sample_env sample_error initial_state)
   \<and> sublist (js ''TypeError: boom\<newline>    at render (page.tsx:3:9)'')
        (issue_body sample_env sample_error initial_state)"
  using issue_body_roundtrip [OF sample_wellformed, of sample_browser] sample_wellformed
  by (simp add: sample_error_def interp_def)

text \<open>
  Claim C6, as the spec states it: the decoded title of the issue URL equals the error message.
  The title template is \<^verbatim>\<open>Error: ${error.message}\<close>: for the message \<^verbatim>\<open>boom\<close> the decoded title
  is \<^verbatim>\<open>Error: boom\<close>.
\<close>

theorem issue_title_counterexample:
  "url_param_decoded (githubUrl sample_env sample_error initial_state) (js ''title'')
     = Some (js ''Error: boom'')
   \<and> message sample_error = js ''boom''
   \<and> js ''Error: boom'' \<noteq> js ''boom''"
  using url_param_decoded_wellformed(1) [OF sample_wellformed]
  by (simp add: issue_title_def sample_error_def js_def)

lemma githubUrl_parts:
  assumes "githubUrl e error st = Inr url"
  shows "\<exists>title body. encodeURIComponent (issue_title error) = Inr title
           \<and> encodeURIComponent (issue_body e error st) = Inr body
           \<and> url = issue_url title body"
  using assms by (auto simp: githubUrl_def split: sum.splits)

text \<open>
  Claim C6, amended. For every error descriptor for which \<^verbatim>\<open>createGithubIssue\<close> produces an
  issue URL (it does whenever the texts are well-formed UTF-16), the title parameter of that
  URL, once URL-decoded, is \<^verbatim>\<open>Error: \<close> followed by the error message.
\<close>

theorem issue_title_roundtrip:
  "(text_wellformed e error st \<longrightarrow> (\<exists>url. githubUrl e error st = Inr url))
   \<and> (\<forall>url. githubUrl e error st = Inr url \<longrightarrow>
          url_param_decoded (Inr url) (js ''title'') = Some (js ''Error: '' @ message error))"
proof (intro conjI allI impI)
  assume "text_wellformed e error st"
  then show "\<exists>url. githubUrl e error st = Inr url"
    using githubUrl_wellformed by blast
next
  fix url
  assume "githubUrl e error st = Inr url"
  then obtain title body where enc: "encodeURIComponent (issue_title error) = Inr title"
    "encodeURIComponent (issue_body e error st) = Inr body" and url: "url = issue_url title body"
    using githubUrl_parts by blast
  have "query_params url = [(js ''title'', title), (js ''body'', body)]"
    unfolding url by (rule query_params_issue_url [OF encode_safe [OF enc(1)] encode_safe [OF enc(2)]])
  then show "url_param_decoded (Inr url) (js ''title'') = Some (js ''Error: '' @ message error)"
    using decode_encode [OF enc(1)]
    by (simp add: url_param_decoded_def query_param_def issue_title_def)
qed

theorem issue_title_roundtrip_witness:
  "text_wellformed sample_env (sample_error\<lparr>message := js ''a&b=c''\<rparr>) initial_state
   \<and> (\<exists>url. githubUrl sample_env (sample_error\<lparr>message := js ''a&b=c''\<rparr>) initial_state = Inr url
          \<and> url_param_decoded (Inr url) (js ''title'') = Some (js ''Error: '' @ js ''a&b=c''))"
proof -
  have wf: "text_wellformed sample_env (sample_error\<lparr>message := js ''a&b=c''\<rparr>) initial_state"
    by (simp add: text_wellformed_def sample_env_def sample_error_def initial_state_def
          isWellFormed_js)
  show ?thesis
    using issue_title_roundtrip [of sample_env "sample_error\<lparr>message := js ''a&b=c''\<rparr>" initial_state]
      wf
    by auto
qed

section \<open>The clipboard and the object-URL store\<close>

text \<open>
  Claim C7. When the clipboard write rejects, \<^verbatim>\<open>copyToClipboard\<close> changes neither the state nor
  the browser and starts no timer, so \<^verbatim>\<open>copied\<close> keeps its value; but the handler has no
  \<^verbatim>\<open>try\<close> around the \<^verbatim>\<open>await\<close>, and the promise it returns is rejected with the error of the
  write: the failure is handed on, not contained.
\<close>

theorem copyToClipboard_rejected:
  "copyToClipboard error st (br\<lparr>clipboardGranted := False\<rparr>)
     = (Rejected NotAllowedError, st, br\<lparr>clipboardGranted := False\<rparr>, [])
   \<and> copied (fst (snd (copyToClipboard error st (br\<lparr>clipboardGranted := False\<rparr>)))) = copied st
   \<and> fst (copyToClipboard error st (br\<lparr>clipboardGranted := False\<rparr>)) \<noteq> Fulfilled ()"
  by (simp add: copyToClipboard_def writeText_def)

text \<open>When the write succeeds the copied flag is set and one timer is started to clear it.\<close>

lemma copyToClipboard_fulfilled:
  "copyToClipboard error st (br\<lparr>clipboardGranted := True\<rparr>)
     = (Fulfilled (), st\<lparr>copied := True\<rparr>,
        br\<lparr>clipboardGranted := True, clipboardText := Some (clipboard_text error)\<rparr>,
        [(2000, \<lambda>s. s\<lparr>copied := False\<rparr>)])"
  by (simp add: copyToClipboard_def writeText_def)

lemma downloadErrorReport_store:
  "objectURLs (downloadErrorReport e error st br)
     = filter (\<lambda>(u, b). u \<noteq> issued br) (objectURLs br)"
  by (simp add: downloadErrorReport_def createObjectURL_def anchor_click_def revokeObjectURL_def
        Let_def)

lemma downloadErrorReport_downloads:
  "downloads (downloadErrorReport e error st br)
     = downloads br @ [(js ''error-report-'' @ number_to_string (now_ms e) @ js ''.json'',
                        \<lparr>blobParts = report_json e error st, mime = js ''application/json''\<rparr>)]"
  by (simp add: downloadErrorReport_def createObjectURL_def anchor_click_def revokeObjectURL_def
        Let_def)

lemma downloads_store_fold:
  "set (objectURLs (fold (\<lambda>(e, error, st). downloadErrorReport e error st) calls br))
     \<subseteq> set (objectURLs br)"
proof (induction calls arbitrary: br)
  case Nil
  then show ?case by simp
next
  case (Cons call calls)
  obtain e error st where call: "call = (e, error, st)"
    by (cases call)
  have "set (objectURLs (downloadErrorReport e error st br)) \<subseteq> set (objectURLs br)"
    by (auto simp: downloadErrorReport_store)
  with Cons.IH [of "downloadErrorReport e error st br"] show ?case
    by (auto simp: call)
qed

text \<open>
  Claim C8. Every call of \<^verbatim>\<open>downloadErrorReport\<close> revokes the object URL it created before it
  returns: the URL it was issued is not in the store afterwards, the store holds what it held
  before the call apart from that URL, and the file was handed over while the URL was live.
  After any sequence of calls the store holds no URL it did not hold before them.
\<close>

theorem downloadErrorReport_releases:
  "issued br \<notin> fst ` set (objectURLs (downloadErrorReport e error st br))
   \<and> objectURLs (downloadErrorReport e error st br)
       = filter (\<lambda>(u, b). u \<noteq> issued br) (objectURLs br)
   \<and> issued (downloadErrorReport e error st br) = Suc (issued br)
   \<and> downloads (downloadErrorReport e error st br)
       = downloads br @ [(js ''error-report-'' @ number_to_string (now_ms e) @ js ''.json'',
                          \<lparr>blobParts = report_json e error st, mime = js ''application/json''\<rparr>)]
   \<and> set (objectURLs (fold (\<lambda>(e, error, st). downloadErrorReport e error st) calls br))
       \<subseteq> set (objectURLs br)"
proof -
  have "issued br \<notin> fst ` set (objectURLs (downloadErrorReport e error st br))"
    by (auto simp: downloadErrorReport_store)
  moreover have "issued (downloadErrorReport e error st br) = Suc (issued br)"
    by (simp add: downloadErrorReport_def createObjectURL_def anchor_click_def
          revokeObjectURL_def Let_def)
  ultimately show ?thesis
    using downloadErrorReport_store downloadErrorReport_downloads downloads_store_fold
    by blast
qed

theorem downloadErrorReport_releases_witness:
  "objectURLs (downloadErrorReport sample_env sample_error initial_state sample_browser) = []
   \<and> objectURLs (downloadErrorReport sample_env sample_error initial_state
        (downloadErrorReport sample_env sample_error initial_state sample_browser)) = []
   \<and> issued (downloadErrorReport sample_env sample_error initial_state
        (downloadErrorReport sample_env sample_error initial_state sample_browser)) = 2"
  using downloadErrorReport_releases [of sample_browser sample_env sample_error initial_state "[]"]
    downloadErrorReport_releases
      [of "downloadErrorReport sample_env sample_error initial_state sample_browser"
          sample_env sample_error initial_state "[]"]
  by (simp add: sample_browser_def)

section \<open>The report and its defaults\<close>

lemma report_props:
  "get_prop (report e error st) (js ''timestamp'') = Str (now_iso e)"
  "get_prop (report e error st) (js ''userReport'') = Str (userReport st)"
  "get_prop (report e error st) (js ''userAgent'') = Str (userAgent e)"
  "get_prop (report e error st) (js ''url'') = Str (href e)"
  "get_prop (report e error st) (js ''screenshot'')
     = Str (or_default (screenshot st) (js ''No screenshot captured''))"
  "get_prop (get_prop (report e error st) (js ''error'')) (js ''name'') = Str (name error)"
  "get_prop (get_prop (report e error st) (js ''error'')) (js ''message'') = Str (message error)"
  "get_prop (get_prop (report e error st) (js ''error'')) (js ''stack'')
     = (case stack error of None \<Rightarrow> Undefined | Some s \<Rightarrow> Str s)"
  "get_prop (get_prop (report e error st) (js ''error'')) (js ''digest'')
     = (case digest error of None \<Rightarrow> Undefined | Some s \<Rightarrow> Str s)"
  by (simp_all add: report_def js_eq)

text \<open>Reading any property of the parsed report, or of its \<^verbatim>\<open>error\<close> object, gives what the
  same read gives on the report that was serialised.\<close>

lemma parsed_report_props:
  assumes "JSON_parse (report_json e error st) = Inr v"
  shows "k = js ''error'' \<or> get_prop v k = get_prop (report e error st) k"
    and "get_prop (get_prop v (js ''error'')) k
           = get_prop (get_prop (report e error st) (js ''error'')) k"
proof -
  have v: "v = Obj [(js ''timestamp'', Str (now_iso e)),
               (js ''error'',
                  Obj ([(js ''name'', Str (name error)), (js ''message'', Str (message error))]
                       @ (case stack error of None \<Rightarrow> [] | Some s \<Rightarrow> [(js ''stack'', Str s)])
                       @ (case digest error of None \<Rightarrow> [] | Some s \<Rightarrow> [(js ''digest'', Str s)]))),
               (js ''userReport'', Str (userReport st)),
               (js ''userAgent'', Str (userAgent e)),
               (js ''url'', Str (href e)),
               (js ''screenshot'', Str (or_default (screenshot st) (js ''No screenshot captured'')))]"
    using assms by (simp add: parse_report_json)
  show "k = js ''error'' \<or> get_prop v k = get_prop (report e error st) k"
    by (simp add: v report_def)
  show "get_prop (get_prop v (js ''error'')) k
           = get_prop (get_prop (report e error st) (js ''error'')) k"
    by (cases "stack error"; cases "digest error") (simp_all add: v report_def js_eq)
qed

lemma parsed_report_exists: "\<exists>v. JSON_parse (report_json e error st) = Inr v"
  by (simp add: parse_report_json)

text \<open>
  Claim C4. The text that \<^verbatim>\<open>downloadErrorReport\<close> hands over as the file parses back, and the
  parsed record has the same timestamp, error name, message, stack, digest, user report, user
  agent, URL and screenshot as the record that was serialised; so has every other property read
  (an absent stack or digest reads as \<^verbatim>\<open>undefined\<close> on both sides).
\<close>

theorem report_roundtrip:
  "\<exists>v. JSON_parse (report_json e error st) = Inr v
       \<and> map (blobParts \<circ> snd) (downloads (downloadErrorReport e error st br))
           = map (blobParts \<circ> snd) (downloads br) @ [report_json e error st]
       \<and> get_prop v (js ''timestamp'') = Str (now_iso e)
       \<and> get_prop (get_prop v (js ''error'')) (js ''name'') = Str (name error)
       \<and> get_prop (get_prop v (js ''error'')) (js ''message'') = Str (message error)
       \<and> get_prop (get_prop v (js ''error'')) (js ''stack'')
           = (case stack error of None \<Rightarrow> Undefined | Some s \<Rightarrow> Str s)
       \<and> get_prop (get_prop v (js ''error'')) (js ''digest'')
           = (case digest error of None \<Rightarrow> Undefined | Some s \<Rightarrow> Str s)
       \<and> get_prop v (js ''userReport'') = Str (userReport st)
       \<and> get_prop v (js ''userAgent'') = Str (userAgent e)
       \<and> get_prop v (js ''url'') = Str (href e)
       \<and> get_prop v (js ''screenshot'')
           = Str (or_default (screenshot st) (js ''No screenshot captured''))
       \<and> (\<forall>k. k = js ''error'' \<or> get_prop v k = get_prop (report e error st) k)
       \<and> (\<forall>k. get_prop (get_prop v (js ''error'')) k
                 = get_prop (get_prop (report e error st) (js ''error'')) k)"
proof -
  obtain v where v: "JSON_parse (report_json e error st) = Inr v"
    using parsed_report_exists by blast
  have top: "get_prop v k = get_prop (report e error st) k" if "k \<noteq> js ''error''" for k
    using parsed_report_props(1) [OF v, of k] that by simp
  have keys: "js ''timestamp'' \<noteq> js ''error''" "js ''userReport'' \<noteq> js ''error''"
    "js ''userAgent'' \<noteq> js ''error''" "js ''url'' \<noteq> js ''error''"
    "js ''screenshot'' \<noteq> js ''error''"
    by (simp_all add: js_eq)
  have "map (blobParts \<circ> snd) (downloads (downloadErrorReport e error st br))
           = map (blobParts \<circ> snd) (downloads br) @ [report_json e error st]"
    by (simp add: downloadErrorReport_downloads)
  then show ?thesis
    using v parsed_report_props [OF v] top [OF keys(1)] top [OF keys(2)] top [OF keys(3)]
      top [OF keys(4)] top [OF keys(5)]
    by (intro exI [of _ v]) (simp add: report_props)
qed

theorem report_roundtrip_witness:
  "\<exists>v. JSON_parse (report_json sample_env sample_error initial_state) = Inr v
       \<and> get_prop v (js ''timestamp'') = Str (js ''2024-05-06T07:08:09.010Z'')
       \<and> get_prop (get_prop v (js ''error'')) (js ''message'') = Str (js ''boom'')
       \<and> get_prop (get_prop v (js ''error'')) (js ''digest'') = Undefined
       \<and> get_prop v (js ''userReport'') = Str []
       \<and> get_prop v (js ''screenshot'') = Str (js ''No screenshot captured'')"
  using report_roundtrip [of sample_env sample_error initial_state sample_browser]
  by (auto simp: sample_env_def sample_error_def initial_state_def or_default_def)

text \<open>What the two handlers hand over: the decoded body parameter of any URL that
  \<^verbatim>\<open>createGithubIssue\<close> opens is the rendered template, a URL is opened whenever the texts are
  well-formed, and the file that \<^verbatim>\<open>downloadErrorReport\<close> saves holds the serialised report.\<close>

lemma githubUrl_decoded:
  assumes "githubUrl e error st = Inr url"
  shows "url_param_decoded (Inr url) (js ''title'') = Some (issue_title error)"
    and "url_param_decoded (Inr url) (js ''body'') = Some (issue_body e error st)"
proof -
  obtain title body where enc: "encodeURIComponent (issue_title error) = Inr title"
    "encodeURIComponent (issue_body e error st) = Inr body" and url: "url = issue_url title body"
    using githubUrl_parts [OF assms] by blast
  have params: "query_params url = [(js ''title'', title), (js ''body'', body)]"
    unfolding url by (rule query_params_issue_url [OF encode_safe [OF enc(1)] encode_safe [OF enc(2)]])
  have keys: "js ''title'' \<noteq> js ''body''"
    by (simp add: js_eq)
  show "url_param_decoded (Inr url) (js ''title'') = Some (issue_title error)"
    using decode_encode [OF enc(1)]
    by (simp add: url_param_decoded_def query_param_def params)
  show "url_param_decoded (Inr url) (js ''body'') = Some (issue_body e error st)"
    using decode_encode [OF enc(2)] keys
    by (simp add: url_param_decoded_def query_param_def params)
qed

lemma createGithubIssue_body:
  assumes "createGithubIssue e error st br = Inr br'"
  shows "\<exists>url. opened br' = opened br @ [(url, js ''_blank'')]
           \<and> url_param_decoded (Inr url) (js ''body'') = Some (issue_body e error st)"
proof -
  from assms obtain url where url: "githubUrl e error st = Inr url"
    and br': "br' = window_open url (js ''_blank'') br"
    by (auto simp: createGithubIssue_def split: sum.splits)
  have "opened br' = opened br @ [(url, js ''_blank'')]"
    by (simp add: br' window_open_def)
  with githubUrl_decoded(2) [OF url] show ?thesis
    by blast
qed

lemma createGithubIssue_wellformed:
  assumes "text_wellformed e error st"
  shows "\<exists>br'. createGithubIssue e error st br = Inr br'"
proof -
  obtain title body where "githubUrl e error st = Inr (issue_url title body)"
    using githubUrl_wellformed [OF assms] by blast
  then show ?thesis
    by (simp add: createGithubIssue_def)
qed

lemma downloadErrorReport_file:
  "\<exists>fname. downloads (downloadErrorReport e error st br)
           = downloads br @ [(fname, \<lparr>blobParts = report_json e error st, mime = js ''application/json''\<rparr>)]"
  by (simp add: downloadErrorReport_downloads)

text \<open>
  Claim C3, as the spec states it: with an absent digest, the issue body shows \<^verbatim>\<open>N/A\<close> and the
  report assembled by \<^verbatim>\<open>downloadErrorReport\<close> holds the marker \<^verbatim>\<open>N/A\<close> as well, while the JSON
  text has no digest. The handler copies \<^verbatim>\<open>error.digest\<close> as it is: for the sample error, which
  has no digest, the report it assembles has the digest \<^verbatim>\<open>undefined\<close> and not the marker, and so
  has the record read back from the one file it saves.
\<close>

theorem digest_absent_counterexample:
  "digest sample_error = None
   \<and> map (blobParts \<circ> snd)
         (downloads (downloadErrorReport sample_env sample_error initial_state sample_browser))
       = [report_json sample_env sample_error initial_state]
   \<and> report_json sample_env sample_error initial_state
       = interp (JSON_stringify (report sample_env sample_error initial_state))
   \<and> get_prop (get_prop (report sample_env sample_error initial_state) (js ''error''))
        (js ''digest'') = Undefined
   \<and> get_prop (get_prop (report sample_env sample_error initial_state) (js ''error''))
        (js ''digest'') \<noteq> Str (js ''N/A'')
   \<and> (case JSON_parse (report_json sample_env sample_error initial_state) of
          Inl x \<Rightarrow> False
        | Inr v \<Rightarrow> get_prop (get_prop v (js ''error'')) (js ''digest'') = Undefined
                  \<and> get_prop (get_prop v (js ''error'')) (js ''digest'') \<noteq> Str (js ''N/A''))"
proof -
  have "map (blobParts \<circ> snd)
         (downloads (downloadErrorReport sample_env sample_error initial_state sample_browser))
       = [report_json sample_env sample_error initial_state]"
    by (simp add: downloadErrorReport_downloads sample_browser_def)
  moreover have "case JSON_parse (report_json sample_env sample_error initial_state) of
          Inl x \<Rightarrow> False
        | Inr v \<Rightarrow> get_prop (get_prop v (js ''error'')) (js ''digest'') = Undefined
                  \<and> get_prop (get_prop v (js ''error'')) (js ''digest'') \<noteq> Str (js ''N/A'')"
    by (simp add: parse_report_json sample_error_def js_eq)
  ultimately show ?thesis
    by (simp add: report_props sample_error_def report_json_def)
qed

text \<open>
  Claim C3, amended. With an absent digest: \<^verbatim>\<open>createGithubIssue\<close> opens a URL whenever the
  texts are well-formed UTF-16, and the body parameter of every URL it opens, once URL-decoded,
  shows the digest as the literal \<^verbatim>\<open>N/A\<close>; the report that \<^verbatim>\<open>downloadErrorReport\<close> assembles
  keeps the digest \<^verbatim>\<open>undefined\<close> (no marker is put in its place), and the JSON text of the file
  it saves has no digest member: the \<^verbatim>\<open>error\<close> object read back from it has the name, the
  message and the stack (when there is one) and nothing else.
\<close>

theorem digest_absent:
  assumes "digest error = None"
  shows "(text_wellformed e error st \<longrightarrow> (\<exists>br'. createGithubIssue e error st br = Inr br'))
         \<and> (\<forall>br'. createGithubIssue e error st br = Inr br' \<longrightarrow>
               (\<exists>url post.
                  opened br' = opened br @ [(url, js ''_blank'')]
                  \<and> url_param_decoded (Inr url) (js ''body'') =
                      Some (js ''## Error Report\<newline>\<newline>**Error Message:** '' @ message error
                            @ js ''\<newline>\<newline>**Error Type:** '' @ name error
                            @ js ''\<newline>\<newline>**Digest:** N/A\<newline>\<newline>**User Report:**\<newline>''
                            @ post)))
         \<and> get_prop (get_prop (report e error st) (js ''error'')) (js ''digest'') = Undefined
         \<and> (\<exists>fname text v.
               downloads (downloadErrorReport e error st br)
                 = downloads br @ [(fname, \<lparr>blobParts = text, mime = js ''application/json''\<rparr>)]
               \<and> text = interp (JSON_stringify (report e error st))
               \<and> JSON_parse text = Inr v
               \<and> get_prop v (js ''error'')
                   = Obj ([(js ''name'', Str (name error)), (js ''message'', Str (message error))]
                          @ (case stack error of None \<Rightarrow> [] | Some s \<Rightarrow> [(js ''stack'', Str s)]))
               \<and> get_prop (get_prop v (js ''error'')) (js ''digest'') = Undefined)"
proof (intro conjI allI impI)
  assume "text_wellformed e error st"
  then show "\<exists>br'. createGithubIssue e error st br = Inr br'"
    by (rule createGithubIssue_wellformed)
next
  fix br'
  assume "createGithubIssue e error st br = Inr br'"
  then obtain url where url: "opened br' = opened br @ [(url, js ''_blank'')]"
    "url_param_decoded (Inr url) (js ''body'') = Some (issue_body e error st)"
    using createGithubIssue_body by blast
  have "\<exists>post. issue_body e error st =
            js ''## Error Report\<newline>\<newline>**Error Message:** '' @ message error
            @ js ''\<newline>\<newline>**Error Type:** '' @ name error
            @ js ''\<newline>\<newline>**Digest:** N/A\<newline>\<newline>**User Report:**\<newline>'' @ post"
    using assms by (simp add: issue_body_def or_default_def js_def)
  with url show "\<exists>url post.
                  opened br' = opened br @ [(url, js ''_blank'')]
                  \<and> url_param_decoded (Inr url) (js ''body'') =
                      Some (js ''## Error Report\<newline>\<newline>**Error Message:** '' @ message error
                            @ js ''\<newline>\<newline>**Error Type:** '' @ name error
                            @ js ''\<newline>\<newline>**Digest:** N/A\<newline>\<newline>**User Report:**\<newline>''
                            @ post)"
    by auto
next
  show "get_prop (get_prop (report e error st) (js ''error'')) (js ''digest'') = Undefined"
    using assms by (simp add: report_props)
next
  obtain fname where saved: "downloads (downloadErrorReport e error st br)
      = downloads br @ [(fname, \<lparr>blobParts = report_json e error st, mime = js ''application/json''\<rparr>)]"
    using downloadErrorReport_file by blast
  have parsed: "\<exists>v. JSON_parse (report_json e error st) = Inr v
                \<and> get_prop v (js ''error'')
                    = Obj ([(js ''name'', Str (name error)), (js ''message'', Str (message error))]
                           @ (case stack error of None \<Rightarrow> [] | Some s \<Rightarrow> [(js ''stack'', Str s)]))
                \<and> get_prop (get_prop v (js ''error'')) (js ''digest'') = Undefined"
    using assms by (cases "stack error") (simp_all add: parse_report_json js_eq)
  have "report_json e error st = interp (JSON_stringify (report e error st))"
    by (simp add: report_json_def)
  with saved parsed show "\<exists>fname text v.
               downloads (downloadErrorReport e error st br)
                 = downloads br @ [(fname, \<lparr>blobParts = text, mime = js ''application/json''\<rparr>)]
               \<and> text = interp (JSON_stringify (report e error st))
               \<and> JSON_parse text = Inr v
               \<and> get_prop v (js ''error'')
                   = Obj ([(js ''name'', Str (name error)), (js ''message'', Str (message error))]
                          @ (case stack error of None \<Rightarrow> [] | Some s \<Rightarrow> [(js ''stack'', Str s)]))
               \<and> get_prop (get_prop v (js ''error'')) (js ''digest'') = Undefined"
    by blast
qed

theorem digest_absent_witness:
  "digest sample_error = None
   \<and> text_wellformed sample_env sample_error initial_state
   \<and> (\<exists>br' url post.
         createGithubIssue sample_env sample_error initial_state sample_browser = Inr br'
         \<and> opened br' = opened sample_browser @ [(url, js ''_blank'')]
         \<and> url_param_decoded (Inr url) (js ''body'') =
             Some (js ''## Error Report\<newline>\<newline>**Error Message:** '' @ message sample_error
                   @ js ''\<newline>\<newline>**Error Type:** '' @ name sample_error
                   @ js ''\<newline>\<newline>**Digest:** N/A\<newline>\<newline>**User Report:**\<newline>''
                   @ post))
   \<and> (\<exists>fname text v.
         downloads (downloadErrorReport sample_env sample_error initial_state sample_browser)
           = downloads sample_browser @ [(fname, \<lparr>blobParts = text, mime = js ''application/json''\<rparr>)]
         \<and> JSON_parse text = Inr v
         \<and> get_prop (get_prop v (js ''error'')) (js ''digest'') = Undefined)"
proof -
  have d: "digest sample_error = None"
    by (simp add: sample_error_def)
  note T = digest_absent [OF d, of sample_env initial_state sample_browser]
  from T sample_wellformed obtain br' where
    c: "createGithubIssue sample_env sample_error initial_state sample_browser = Inr br'"
    by blast
  from T c have "\<exists>url post.
         opened br' = opened sample_browser @ [(url, js ''_blank'')]
         \<and> url_param_decoded (Inr url) (js ''body'') =
             Some (js ''## Error Report\<newline>\<newline>**Error Message:** '' @ message sample_error
                   @ js ''\<newline>\<newline>**Error Type:** '' @ name sample_error
                   @ js ''\<newline>\<newline>**Digest:** N/A\<newline>\<newline>**User Report:**\<newline>''
                   @ post)"
    by blast
  with c have issue: "\<exists>br' url post.
         createGithubIssue sample_env sample_error initial_state sample_browser = Inr br'
         \<and> opened br' = opened sample_browser @ [(url, js ''_blank'')]
         \<and> url_param_decoded (Inr url) (js ''body'') =
             Some (js ''## Error Report\<newline>\<newline>**Error Message:** '' @ message sample_error
                   @ js ''\<newline>\<newline>**Error Type:** '' @ name sample_error
                   @ js ''\<newline>\<newline>**Digest:** N/A\<newline>\<newline>**User Report:**\<newline>''
                   @ post)"
    by blast
  from T have saved: "\<exists>fname text v.
         downloads (downloadErrorReport sample_env sample_error initial_state sample_browser)
           = downloads sample_browser @ [(fname, \<lparr>blobParts = text, mime = js ''application/json''\<rparr>)]
         \<and> JSON_parse text = Inr v
         \<and> get_prop (get_prop v (js ''error'')) (js ''digest'') = Undefined"
    by blast
  from d sample_wellformed issue saved show ?thesis
    by (intro conjI)
qed

text \<open>
  Claim C9. With an empty user report: \<^verbatim>\<open>createGithubIssue\<close> opens a URL whenever the texts are
  well-formed UTF-16, and the body parameter of every URL it opens, once URL-decoded, has the
  default text \<^verbatim>\<open>No additional information provided\<close> in its User Report section; the report
  that \<^verbatim>\<open>downloadErrorReport\<close> assembles and the JSON text of the file it saves keep the empty
  string as the user report.
\<close>

theorem empty_user_report:
  assumes "userReport st = []"
  shows "(text_wellformed e error st \<longrightarrow> (\<exists>br'. createGithubIssue e error st br = Inr br'))
         \<and> (\<forall>br'. createGithubIssue e error st br = Inr br' \<longrightarrow>
               (\<exists>url post.
                  opened br' = opened br @ [(url, js ''_blank'')]
                  \<and> url_param_decoded (Inr url) (js ''body'') =
                      Some (js ''## Error Report\<newline>\<newline>**Error Message:** '' @ message error
                            @ js ''\<newline>\<newline>**Error Type:** '' @ name error
                            @ js ''\<newline>\<newline>**Digest:** '' @ or_default (digest error) (js ''N/A'')
                            @ js ''\<newline>\<newline>**User Report:**\<newline>No additional information provided''
                            @ js ''\<newline>\<newline>**Stack Trace:**\<newline>'' @ post)))
         \<and> get_prop (report e error st) (js ''userReport'') = Str []
         \<and> (\<exists>fname text v.
               downloads (downloadErrorReport e error st br)
                 = downloads br @ [(fname, \<lparr>blobParts = text, mime = js ''application/json''\<rparr>)]
               \<and> text = interp (JSON_stringify (report e error st))
               \<and> JSON_parse text = Inr v
               \<and> get_prop v (js ''userReport'') = Str [])"
proof (intro conjI allI impI)
  assume "text_wellformed e error st"
  then show "\<exists>br'. createGithubIssue e error st br = Inr br'"
    by (rule createGithubIssue_wellformed)
next
  fix br'
  assume "createGithubIssue e error st br = Inr br'"
  then obtain url where url: "opened br' = opened br @ [(url, js ''_blank'')]"
    "url_param_decoded (Inr url) (js ''body'') = Some (issue_body e error st)"
    using createGithubIssue_body by blast
  have "\<exists>post. issue_body e error st =
            js ''## Error Report\<newline>\<newline>**Error Message:** '' @ message error
            @ js ''\<newline>\<newline>**Error Type:** '' @ name error
            @ js ''\<newline>\<newline>**Digest:** '' @ or_default (digest error) (js ''N/A'')
            @ js ''\<newline>\<newline>**User Report:**\<newline>No additional information provided''
            @ js ''\<newline>\<newline>**Stack Trace:**\<newline>'' @ post"
    using assms by (simp add: issue_body_def or_default_def js_def)
  with url show "\<exists>url post.
                  opened br' = opened br @ [(url, js ''_blank'')]
                  \<and> url_param_decoded (Inr url) (js ''body'') =
                      Some (js ''## Error Report\<newline>\<newline>**Error Message:** '' @ message error
                            @ js ''\<newline>\<newline>**Error Type:** '' @ name error
                            @ js ''\<newline>\<newline>**Digest:** '' @ or_default (digest error) (js ''N/A'')
                            @ js ''\<newline>\<newline>**User Report:**\<newline>No additional information provided''
                            @ js ''\<newline>\<newline>**Stack Trace:**\<newline>'' @ post)"
    by auto
next
  show "get_prop (report e error st) (js ''userReport'') = Str []"
    using assms by (simp add: report_props)
next
  obtain fname where saved: "downloads (downloadErrorReport e error st br)
      = downloads br @ [(fname, \<lparr>blobParts = report_json e error st, mime = js ''application/json''\<rparr>)]"
    using downloadErrorReport_file by blast
  have parsed: "\<exists>v. JSON_parse (report_json e error st) = Inr v
                \<and> get_prop v (js ''userReport'') = Str []"
    using assms by (simp add: parse_report_json js_eq)
  have "report_json e error st = interp (JSON_stringify (report e error st))"
    by (simp add: report_json_def)
  with saved parsed show "\<exists>fname text v.
               downloads (downloadErrorReport e error st br)
                 = downloads br @ [(fname, \<lparr>blobParts = text, mime = js ''application/json''\<rparr>)]
               \<and> text = interp (JSON_stringify (report e error st))
               \<and> JSON_parse text = Inr v
               \<and> get_prop v (js ''userReport'') = Str []"
    by blast
qed

theorem empty_user_report_witness:
  "userReport initial_state = []
   \<and> text_wellformed sample_env sample_error initial_state
   \<and> (\<exists>br' url post.
         createGithubIssue sample_env sample_error initial_state sample_browser = Inr br'
         \<and> opened br' = opened sample_browser @ [(url, js ''_blank'')]
         \<and> url_param_decoded (Inr url) (js ''body'') =
             Some (js ''## Error Report\<newline>\<newline>**Error Message:** '' @ message sample_error
                   @ js ''\<newline>\<newline>**Error Type:** '' @ name sample_error
                   @ js ''\<newline>\<newline>**Digest:** '' @ or_default (digest sample_error) (js ''N/A'')
                   @ js ''\<newline>\<newline>**User Report:**\<newline>No additional information provided''
                   @ js ''\<newline>\<newline>**Stack Trace:**\<newline>'' @ post))
   \<and> (\<exists>fname text v.
         downloads (downloadErrorReport sample_env sample_error initial_state sample_browser)
           = downloads sample_browser @ [(fname, \<lparr>blobParts = text, mime = js ''application/json''\<rparr>)]
         \<and> JSON_parse text = Inr v
         \<and> get_prop v (js ''userReport'') = Str [])"
proof -
  have u: "userReport initial_state = []"
    by (simp add: initial_state_def)
  note T = empty_user_report [OF u, of sample_env sample_error sample_browser]
  from T sample_wellformed obtain br' where
    c: "createGithubIssue sample_env sample_error initial_state sample_browser = Inr br'"
    by blast
  from T c have "\<exists>url post.
         opened br' = opened sample_browser @ [(url, js ''_blank'')]
         \<and> url_param_decoded (Inr url) (js ''body'') =
             Some (js ''## Error Report\<newline>\<newline>**Error Message:** '' @ message sample_error
                   @ js ''\<newline>\<newline>**Error Type:** '' @ name sample_error
                   @ js ''\<newline>\<newline>**Digest:** '' @ or_default (digest sample_error) (js ''N/A'')
                   @ js ''\<newline>\<newline>**User Report:**\<newline>No additional information provided''
                   @ js ''\<newline>\<newline>**Stack Trace:**\<newline>'' @ post)"
    by blast
  with c have issue: "\<exists>br' url post.
         createGithubIssue sample_env sample_error initial_state sample_browser = Inr br'
         \<and> opened br' = opened sample_browser @ [(url, js ''_blank'')]
         \<and> url_param_decoded (Inr url) (js ''body'') =
             Some (js ''## Error Report\<newline>\<newline>**Error Message:** '' @ message sample_error
                   @ js ''\<newline>\<newline>**Error Type:** '' @ name sample_error
                   @ js ''\<newline>\<newline>**Digest:** '' @ or_default (digest sample_error) (js ''N/A'')
                   @ js ''\<newline>\<newline>**User Report:**\<newline>No additional information provided''
                   @ js ''\<newline>\<newline>**Stack Trace:**\<newline>'' @ post)"
    by blast
  from T have saved: "\<exists>fname text v.
         downloads (downloadErrorReport sample_env sample_error initial_state sample_browser)
           = downloads sample_browser @ [(fname, \<lparr>blobParts = text, mime = js ''application/json''\<rparr>)]
         \<and> JSON_parse text = Inr v
         \<and> get_prop v (js ''userReport'') = Str []"
    by blast
  from u sample_wellformed issue saved show ?thesis
    by (intro conjI)
qed

end
